theory Spec2Isabelle
  imports Main "HOL-Library.Word"
begin

section \<open>Transactions and the client state\<close>

text \<open>
  \<^verbatim>\<open>types/types.go\<close>: the five statuses, in the order of the \<^verbatim>\<open>iota\<close> block, and the
  text \<^verbatim>\<open>String()\<close> gives each of them.
\<close>

datatype TransactionStatus = STORED | CANCELED | SPEDUP | FAILED | BROADCASTED

fun String :: "TransactionStatus \<Rightarrow> string" where
  "String STORED = ''STORED''"
| "String CANCELED = ''CANCELED''"
| "String SPEDUP = ''SPEDUP''"
| "String FAILED = ''FAILED''"
| "String BROADCASTED = ''BROADCASTED''"

text \<open>
  The signed transaction is go-ethereum's \<^verbatim>\<open>types.Transaction\<close>. The client reads it only
  through its accessors, so the record has one field per accessor the code calls:
  \<^verbatim>\<open>Hash().String()\<close>, \<^verbatim>\<open>ChainId()\<close>, \<^verbatim>\<open>Nonce()\<close> (a \<^verbatim>\<open>uint64\<close>), \<^verbatim>\<open>GasFeeCap()\<close>,
  \<^verbatim>\<open>GasTipCap()\<close> and \<^verbatim>\<open>Value()\<close> (each a \<^verbatim>\<open>*big.Int\<close>), \<^verbatim>\<open>To()\<close> (a pointer to a
  20-byte address, nil for a contract creation) and \<^verbatim>\<open>Data()\<close>.
\<close>

type_synonym address = "160 word"

record eth_tx =
  Hash :: string
  ChainId :: int
  Nonce :: "64 word"
  GasFeeCap :: int
  GasTipCap :: int
  To :: "address option"
  Value :: int
  Data :: "8 word list"

text \<open>
  \<^verbatim>\<open>types.Transaction\<close> of this repository embeds the signed transaction and adds the
  status and the raw hex.
\<close>

record transaction =
  Transaction :: eth_tx
  Status :: TransactionStatus
  RawHex :: string

text \<open>
  \<^verbatim>\<open>(*big.Int).Int64()\<close>: the low 64 bits of the magnitude read as an \<^verbatim>\<open>int64\<close>, negated
  for a negative number. Sums of such values are \<^verbatim>\<open>int64\<close> sums (they wrap), and the
  comparisons of the code are signed (\<open>sint\<close>).
\<close>

definition Int64 :: "int \<Rightarrow> 64 word" where
  "Int64 x = (if x < 0 then - word_of_int \<bar>x\<bar> else word_of_int \<bar>x\<bar>)"

text \<open>
  \<^verbatim>\<open>ethTypes.Sender(ethTypes.LatestSignerForChainID(c), tx)\<close> is signature recovery of the
  library: a parameter of the model, of the chain id \<open>c\<close> the signer is made from and of
  the signed transaction. \<open>None\<close> is the library's error.
\<close>

type_synonym sender_recovery = "int \<Rightarrow> eth_tx \<Rightarrow> address option"

text \<open>
  \<^verbatim>\<open>EthClient\<close>: the map from hash to transaction and the mutex (\<open>True\<close> while it is held).
  The URL, the HTTP client and the monitoring period are read by none of the functions
  below; what the HTTP client answers is a parameter where it is needed.
\<close>

record EthClient =
  storedTransactions :: "string \<rightharpoonup> transaction"
  transactionsMutex :: bool

text \<open>
  How a call ends: it returns a value, it panics, or it waits for ever in
  \<^verbatim>\<open>Lock()\<close> on a mutex that is held and that nothing will release (the model is
  sequential: one call runs at a time, so a mutex found held was left held).
\<close>

datatype panic = NilPointerDereference | SliceBoundsOutOfRange

datatype 'a outcome = Returns 'a | Panics panic | Blocks

text \<open>An \<^verbatim>\<open>error\<close> is its message; \<open>None\<close> is \<^verbatim>\<open>nil\<close>.\<close>

type_synonym error = "string option"

section \<open>The status state machine\<close>

fun allowedTransitions :: "TransactionStatus \<Rightarrow> TransactionStatus list" where
  "allowedTransitions STORED = [CANCELED, SPEDUP, FAILED, BROADCASTED]"
| "allowedTransitions CANCELED = [SPEDUP]"
| "allowedTransitions SPEDUP = []"
| "allowedTransitions FAILED = []"
| "allowedTransitions BROADCASTED = []"

text \<open>
  The loop over \<^verbatim>\<open>allowedTransitions[trx.Status]\<close>: at the first entry equal to the new
  status the record is written back with that status and the function returns nil; when
  the entries are used up it falls out of the loop.
\<close>

fun transition_loop ::
  "(string \<rightharpoonup> transaction) \<Rightarrow> string \<Rightarrow> transaction \<Rightarrow> TransactionStatus \<Rightarrow>
   TransactionStatus list \<Rightarrow> (string \<rightharpoonup> transaction) option" where
  "transition_loop m hash trx newStatus [] = None"
| "transition_loop m hash trx newStatus (allowedStatus # rest) =
     (if newStatus = allowedStatus then Some (m(hash \<mapsto> trx\<lparr>Status := newStatus\<rparr>))
      else transition_loop m hash trx newStatus rest)"

text \<open>
  \<^verbatim>\<open>changeTransactionStatus\<close>. \<^verbatim>\<open>Lock()\<close> comes first and the deferred \<^verbatim>\<open>Unlock()\<close> runs at
  every return, so a call that returns leaves the mutex free.
\<close>

definition changeTransactionStatus ::
  "EthClient \<Rightarrow> string \<Rightarrow> TransactionStatus \<Rightarrow> EthClient \<times> error outcome" where
  "changeTransactionStatus ec hash newStatus =
     (if transactionsMutex ec then (ec, Blocks)
      else
        (case storedTransactions ec hash of
           None \<Rightarrow> (ec\<lparr>transactionsMutex := False\<rparr>, Returns (Some ''transaction not found''))
         | Some trx \<Rightarrow>
             (case transition_loop (storedTransactions ec) hash trx newStatus
                     (allowedTransitions (Status trx)) of
                Some m \<Rightarrow> (ec\<lparr>storedTransactions := m, transactionsMutex := False\<rparr>, Returns None)
              | None \<Rightarrow>
                  (ec\<lparr>transactionsMutex := False\<rparr>,
                   Returns (Some (''invalid status transition from '' @ String (Status trx) @
                     '' to '' @ String newStatus @ '' for transaction: '' @ hash))))))"

text \<open>\<^verbatim>\<open>CancelTransaction\<close>: the error of \<^verbatim>\<open>changeTransactionStatus\<close>, or nil.\<close>

definition CancelTransaction :: "EthClient \<Rightarrow> string \<Rightarrow> EthClient \<times> error outcome" where
  "CancelTransaction ec hash = changeTransactionStatus ec hash CANCELED"

section \<open>The validator of raw transactions\<close>

text \<open>
  \<^verbatim>\<open>rpc/server.go\<close>. A parameter of a decoded JSON-RPC request is an \<^verbatim>\<open>interface{}\<close> holding
  what \<^verbatim>\<open>encoding/json\<close> decodes into it. Only the string case is looked into.
\<close>

typedecl float64

datatype json =
    JNull
  | JBool bool
  | JNumber float64
  | JString string
  | JArray "json list"
  | JObject "(string \<times> json) list"

text \<open>
  \<^verbatim>\<open>isValidHexRawTx\<close>: the type assertion, then \<^verbatim>\<open>rawTxStr[:2] != "0x"\<close>. The slice
  expression is evaluated with no check of the length before it, and Go panics when the
  upper bound 2 exceeds the length of the string.
\<close>

definition isValidHexRawTx :: "json \<Rightarrow> error outcome" where
  "isValidHexRawTx rawTx =
     (case rawTx of
        JString rawTxStr \<Rightarrow>
          (if length rawTxStr < 2 then Panics SliceBoundsOutOfRange
           else if take 2 rawTxStr \<noteq> ''0x'' then Returns (Some ''invalid transaction hex'')
           else Returns None)
      | _ \<Rightarrow> Returns (Some ''the param is not a string''))"

text \<open>
  \<^verbatim>\<open>isValidTxHash\<close>, the validator beside it: here the length is compared first, and
  \<^verbatim>\<open>||\<close> does not evaluate the slice of a string that is not 66 bytes long.
  \<^verbatim>\<open>hex.DecodeString\<close> is the library's: a parameter giving its error, if any.
\<close>

definition isValidTxHash :: "(string \<Rightarrow> error) \<Rightarrow> json \<Rightarrow> error outcome" where
  "isValidTxHash DecodeString param =
     (case param of
        JString hashStr \<Rightarrow>
          (if length hashStr \<noteq> 66 \<or> take 2 hashStr \<noteq> ''0x''
           then Returns (Some ''invalid transaction hash'')
           else
             (case DecodeString (drop 2 hashStr) of
                Some err \<Rightarrow> Returns (Some (''invalid transaction hash: '' @ err))
              | None \<Rightarrow> Returns None))
      | _ \<Rightarrow> Returns (Some ''the param is not a string''))"

section \<open>Storing a transaction\<close>

text \<open>
  The two sums of \<^verbatim>\<open>StoreTransaction\<close> and of \<^verbatim>\<open>MonitorGas\<close>:
  \<^verbatim>\<open>tx.GasFeeCap().Int64() + tx.GasTipCap().Int64()\<close>, an \<^verbatim>\<open>int64\<close>.
\<close>

definition gasCap :: "transaction \<Rightarrow> 64 word" where
  "gasCap tx = Int64 (GasFeeCap (Transaction tx)) + Int64 (GasTipCap (Transaction tx))"

text \<open>
  One pass through the body of the \<^verbatim>\<open>range\<close> loop ends in \<^verbatim>\<open>continue\<close> (or at the end
  of the body), in \<^verbatim>\<open>break\<close>, or leaves the function (a \<^verbatim>\<open>return\<close>, a panic, or a call
  that never comes back). \<open>Continue\<close> carries the client and \<^verbatim>\<open>isCancelingTx\<close>.
\<close>

datatype loop_step =
    Continue EthClient bool
  | Break
  | Leave EthClient "error outcome"

text \<open>
  The body, for the entry \<open>(oldHash, oldTx)\<close>. Go evaluates \<^verbatim>\<open>&&\<close> from the left and
  stops at the first false operand; \<^verbatim>\<open>*tx.To()\<close> is the first operand of the cancel
  test and \<^verbatim>\<open>*tx.To() == *oldTx.To()\<close> the first of the speed-up test, so a nil pointer
  there is dereferenced whenever the test is reached.
\<close>

definition loop_body ::
  "sender_recovery \<Rightarrow> transaction \<Rightarrow> EthClient \<Rightarrow> bool \<Rightarrow> string \<Rightarrow> transaction \<Rightarrow> loop_step" where
  "loop_body Sender tx ec isCancelingTx oldHash oldTx =
     (let hash = Hash (Transaction tx) in
      if oldHash = hash then Leave ec (Returns (Some (''already '' @ String (Status oldTx))))
      else if Status oldTx = SPEDUP then Continue ec isCancelingTx
      else
        (case Sender (ChainId (Transaction tx)) (Transaction oldTx) of
           None \<Rightarrow> Continue ec isCancelingTx
         | Some oldFromAddress \<Rightarrow>
             (case Sender (ChainId (Transaction tx)) (Transaction tx) of
                None \<Rightarrow> Break
              | Some newFromAddress \<Rightarrow>
                  if oldFromAddress = newFromAddress \<and>
                     Nonce (Transaction tx) = Nonce (Transaction oldTx)
                  then
                    (case To (Transaction tx) of
                       None \<Rightarrow> Leave ec (Panics NilPointerDereference)
                     | Some txTo \<Rightarrow>
                         if newFromAddress = txTo \<and> Int64 (Value (Transaction tx)) = 0 \<and>
                            sint (gasCap oldTx) < sint (gasCap tx) \<and>
                            length (Data (Transaction tx)) = 0
                         then
                           (case changeTransactionStatus ec oldHash CANCELED of
                              (ec', Returns (Some err)) \<Rightarrow> Continue ec' True
                            | (ec', Returns None) \<Rightarrow> Leave ec' (Returns None)
                            | (ec', Panics p) \<Rightarrow> Leave ec' (Panics p)
                            | (ec', Blocks) \<Rightarrow> Leave ec' Blocks)
                         else
                           (case To (Transaction oldTx) of
                              None \<Rightarrow> Leave ec (Panics NilPointerDereference)
                            | Some oldTo \<Rightarrow>
                                if txTo = oldTo \<and>
                                   Int64 (Value (Transaction tx)) = Int64 (Value (Transaction oldTx)) \<and>
                                   sint (gasCap oldTx) < sint (gasCap tx) \<and>
                                   Data (Transaction tx) = Data (Transaction oldTx)
                                then
                                  (case changeTransactionStatus ec oldHash SPEDUP of
                                     (ec', Returns (Some err)) \<Rightarrow> Leave ec' (Returns (Some err))
                                   | (ec', Returns None) \<Rightarrow>
                                       Leave (ec'\<lparr>storedTransactions :=
                                                (storedTransactions ec')(hash \<mapsto> tx\<lparr>Status := STORED\<rparr>)\<rparr>)
                                         (Returns None)
                                   | (ec', Panics p) \<Rightarrow> Leave ec' (Panics p)
                                   | (ec', Blocks) \<Rightarrow> Leave ec' Blocks)
                                else Continue ec isCancelingTx))
                  else Continue ec isCancelingTx)))"

text \<open>
  The loop \<^verbatim>\<open>for oldHash, oldTx := range ec.storedTransactions\<close>. Go fixes no order for
  a map: \<open>order\<close> is the sequence in which this run of the loop produces the keys. The
  loop ends with the function left (\<open>Left\<close>) or goes on to the code after it
  (\<open>Fallen\<close>, at the end of the keys or at \<^verbatim>\<open>break\<close>).
\<close>

datatype loop_end =
    Left EthClient "error outcome"
  | Fallen EthClient bool

fun range_loop ::
  "sender_recovery \<Rightarrow> transaction \<Rightarrow> EthClient \<Rightarrow> bool \<Rightarrow> string list \<Rightarrow> loop_end" where
  "range_loop Sender tx ec isCancelingTx [] = Fallen ec isCancelingTx"
| "range_loop Sender tx ec isCancelingTx (oldHash # rest) =
     (case storedTransactions ec oldHash of
        None \<Rightarrow> range_loop Sender tx ec isCancelingTx rest
      | Some oldTx \<Rightarrow>
          (case loop_body Sender tx ec isCancelingTx oldHash oldTx of
             Continue ec' c \<Rightarrow> range_loop Sender tx ec' c rest
           | Break \<Rightarrow> Fallen ec isCancelingTx
           | Leave ec' r \<Rightarrow> Left ec' r))"

text \<open>
  \<^verbatim>\<open>StoreTransaction\<close>: the loop, then the code after it: nothing is stored for a
  cancelling transaction, any other is stored with status \<^verbatim>\<open>STORED\<close>.
\<close>

definition StoreTransaction ::
  "sender_recovery \<Rightarrow> string list \<Rightarrow> EthClient \<Rightarrow> transaction \<Rightarrow> EthClient \<times> error outcome" where
  "StoreTransaction Sender order ec tx =
     (case range_loop Sender tx ec False order of
        Left ec' r \<Rightarrow> (ec', r)
      | Fallen ec' isCancelingTx \<Rightarrow>
          if isCancelingTx then (ec', Returns None)
          else
            (ec'\<lparr>storedTransactions :=
               (storedTransactions ec')(Hash (Transaction tx) \<mapsto> tx\<lparr>Status := STORED\<rparr>)\<rparr>,
             Returns None))"

text \<open>
  An order the loop can take: every key of the map, once.
\<close>

definition range_order :: "EthClient \<Rightarrow> string list \<Rightarrow> bool" where
  "range_order ec order = (distinct order \<and> set order = dom (storedTransactions ec))"

section \<open>The gas monitor\<close>

text \<open>
  \<^verbatim>\<open>sendTransaction\<close> returns \<^verbatim>\<open>(rpcError, err)\<close>; what it returns is up to the node and the
  network, so it is a parameter: the pair returned by the call made for the entry
  \<open>hash\<close> with the raw hex of that entry. \<^verbatim>\<open>Lock()\<close> on the held mutex never returns;
  \<^verbatim>\<open>Unlock()\<close> frees it.
\<close>

type_synonym send = "string \<Rightarrow> string \<Rightarrow> bool \<times> error"

definition Unlock :: "EthClient \<Rightarrow> EthClient" where
  "Unlock ec = ec\<lparr>transactionsMutex := False\<rparr>"

text \<open>
  One pass of the loop of a tick, for an entry with status \<^verbatim>\<open>STORED\<close> whose sum of caps
  is at least the gas price, from \<^verbatim>\<open>Lock()\<close> on. The result says whether
  \<^verbatim>\<open>sendTransaction\<close> was called. The error of \<^verbatim>\<open>changeTransactionStatus\<close> is logged and
  dropped. On an error that is not an RPC error the body ends with no call of
  \<^verbatim>\<open>Unlock()\<close>.
\<close>

definition broadcast ::
  "send \<Rightarrow> EthClient \<Rightarrow> string \<Rightarrow> transaction \<Rightarrow> EthClient \<times> bool \<times> unit outcome" where
  "broadcast sendTransaction ec hash tx =
     (if transactionsMutex ec then (ec, False, Blocks)
      else
        (let locked = ec\<lparr>transactionsMutex := True\<rparr> in
         case sendTransaction hash (RawHex tx) of
           (isRPCErr, Some err) \<Rightarrow>
             if isRPCErr then
               (case changeTransactionStatus (Unlock locked) hash FAILED of
                  (ec', Returns e) \<Rightarrow> (ec', True, Returns ())
                | (ec', Panics p) \<Rightarrow> (ec', True, Panics p)
                | (ec', Blocks) \<Rightarrow> (ec', True, Blocks))
             else (locked, True, Returns ())
         | (isRPCErr, None) \<Rightarrow>
             (case changeTransactionStatus (Unlock locked) hash BROADCASTED of
                (ec', Returns e) \<Rightarrow> (ec', True, Returns ())
              | (ec', Panics p) \<Rightarrow> (ec', True, Panics p)
              | (ec', Blocks) \<Rightarrow> (ec', True, Blocks))))"

text \<open>
  The loop \<^verbatim>\<open>for hash, tx := range ec.storedTransactions\<close> of one tick, over the keys in
  the order this run produces them; \<open>gasPrice\<close> is \<^verbatim>\<open>int64(gasPrice)\<close>. It gives the
  client, the keys \<^verbatim>\<open>sendTransaction\<close> was called for, in order, and how the loop
  ended.
\<close>

fun monitor_loop ::
  "send \<Rightarrow> 64 word \<Rightarrow> EthClient \<Rightarrow> string list \<Rightarrow> EthClient \<times> string list \<times> unit outcome" where
  "monitor_loop sendTransaction gasPrice ec [] = (ec, [], Returns ())"
| "monitor_loop sendTransaction gasPrice ec (hash # rest) =
     (case storedTransactions ec hash of
        None \<Rightarrow> monitor_loop sendTransaction gasPrice ec rest
      | Some tx \<Rightarrow>
          if Status tx \<noteq> STORED then monitor_loop sendTransaction gasPrice ec rest
          else if sint gasPrice \<le> sint (gasCap tx) then
            (case broadcast sendTransaction ec hash tx of
               (ec', called, Returns u) \<Rightarrow>
                 (case monitor_loop sendTransaction gasPrice ec' rest of
                    (ec'', sent, r) \<Rightarrow> (ec'', (if called then [hash] else []) @ sent, r))
             | (ec', called, Panics p) \<Rightarrow> (ec', (if called then [hash] else []), Panics p)
             | (ec', called, Blocks) \<Rightarrow> (ec', (if called then [hash] else []), Blocks))
          else monitor_loop sendTransaction gasPrice ec rest)"

text \<open>
  One tick of \<^verbatim>\<open>MonitorGas\<close>: \<^verbatim>\<open>getGasPrice\<close> first (\<open>None\<close> is its error: the tick is
  over), then the loop. \<^verbatim>\<open>getGasPrice\<close> parses the answer of the node into an \<^verbatim>\<open>int64\<close>
  and returns it as a \<^verbatim>\<open>float64\<close>, which the loop converts back with
  \<^verbatim>\<open>int64(gasPrice)\<close>; the parameter is the \<^verbatim>\<open>int64\<close> the loop compares with (the price
  itself up to \<open>2 ^ 53\<close>, where the conversions are exact).
\<close>

definition MonitorGas_tick ::
  "send \<Rightarrow> 64 word option \<Rightarrow> string list \<Rightarrow> EthClient \<Rightarrow> EthClient \<times> string list \<times> unit outcome" where
  "MonitorGas_tick sendTransaction getGasPrice order ec =
     (case getGasPrice of
        None \<Rightarrow> (ec, [], Returns ())
      | Some gasPrice \<Rightarrow> monitor_loop sendTransaction gasPrice ec order)"

section \<open>The tests of the scan, as predicates\<close>

text \<open>
  The conditions \<^verbatim>\<open>StoreTransaction\<close> tests on an entry, named so that statements can
  refer to them. \<open>same_account\<close>: both senders are recovered, under the signer of the
  new transaction's chain id, they are equal, and so are the nonces.
\<close>

definition same_account :: "sender_recovery \<Rightarrow> transaction \<Rightarrow> transaction \<Rightarrow> bool" where
  "same_account Sender tx oldTx =
     (case Sender (ChainId (Transaction tx)) (Transaction oldTx) of
        None \<Rightarrow> False
      | Some oldFromAddress \<Rightarrow>
          Sender (ChainId (Transaction tx)) (Transaction tx) = Some oldFromAddress \<and>
          Nonce (Transaction tx) = Nonce (Transaction oldTx))"

text \<open>The cancel test, for a transaction from \<open>newFromAddress\<close> with a recipient.\<close>

definition cancel_test :: "address \<Rightarrow> transaction \<Rightarrow> transaction \<Rightarrow> bool" where
  "cancel_test newFromAddress tx oldTx =
     (To (Transaction tx) = Some newFromAddress \<and> Int64 (Value (Transaction tx)) = 0 \<and>
      sint (gasCap oldTx) < sint (gasCap tx) \<and> length (Data (Transaction tx)) = 0)"

text \<open>The speed-up test, for two transactions with a recipient each.\<close>

definition speedup_test :: "transaction \<Rightarrow> transaction \<Rightarrow> bool" where
  "speedup_test tx oldTx =
     (To (Transaction tx) \<noteq> None \<and> To (Transaction tx) = To (Transaction oldTx) \<and>
      Int64 (Value (Transaction tx)) = Int64 (Value (Transaction oldTx)) \<and>
      sint (gasCap oldTx) < sint (gasCap tx) \<and>
      Data (Transaction tx) = Data (Transaction oldTx))"

text \<open>
  An entry the scan passes by: it has status \<^verbatim>\<open>SPEDUP\<close>, or its sender is not recovered,
  or the sender of the new transaction is recovered and the two differ in sender or nonce.
\<close>

definition passed_by :: "sender_recovery \<Rightarrow> transaction \<Rightarrow> transaction \<Rightarrow> bool" where
  "passed_by Sender tx oldTx =
     (Status oldTx = SPEDUP \<or>
      Sender (ChainId (Transaction tx)) (Transaction oldTx) = None \<or>
      (Sender (ChainId (Transaction tx)) (Transaction tx) \<noteq> None \<and>
       \<not> same_account Sender tx oldTx))"

text \<open>
  An entry of the same account that the new transaction does not replace: both have a
  recipient and neither test holds.
\<close>

definition unmatched :: "sender_recovery \<Rightarrow> transaction \<Rightarrow> transaction \<Rightarrow> bool" where
  "unmatched Sender tx oldTx =
     (case Sender (ChainId (Transaction tx)) (Transaction tx) of
        None \<Rightarrow> False
      | Some newFromAddress \<Rightarrow>
          same_account Sender tx oldTx \<and>
          To (Transaction tx) \<noteq> None \<and> To (Transaction oldTx) \<noteq> None \<and>
          \<not> cancel_test newFromAddress tx oldTx \<and> \<not> speedup_test tx oldTx)"

section \<open>Sample transactions\<close>

text \<open>
  Three accounts, and transactions of the first at nonce 24 on chain 5, as the server
  hands them to \<^verbatim>\<open>StoreTransaction\<close>: decoded, with the zero status and the raw hex. The
  short hashes stand for the 32-byte ones. The recovery used with them knows the signer
  of each by its hash, under the chain id the transaction was signed for, as the
  library does for transactions signed with one key; \<open>unsigned_tx\<close> stands for a
  transaction whose signature values recover no sender.
\<close>

definition alice :: address where "alice = 0xA11CE"
definition bob :: address where "bob = 0xB0B"
definition carol :: address where "carol = 0xCA201"

definition eth :: "string \<Rightarrow> int \<Rightarrow> int \<Rightarrow> address option \<Rightarrow> int \<Rightarrow> 8 word list \<Rightarrow> eth_tx" where
  "eth h fee tip to v d =
     \<lparr>Hash = h, ChainId = 5, Nonce = 24, GasFeeCap = fee, GasTipCap = tip, To = to,
      Value = v, Data = d\<rparr>"

definition received :: "eth_tx \<Rightarrow> transaction" where
  "received t = \<lparr>Transaction = t, Status = STORED, RawHex = ''0x02'' @ drop 2 (Hash t)\<rparr>"

definition pay_bob :: transaction where
  "pay_bob = received (eth ''0xa1'' 6 4 (Some bob) 1000 [])"

definition pay_bob_again :: transaction where
  "pay_bob_again = received (eth ''0xa2'' 4 6 (Some bob) 1000 [])"

definition pay_bob_faster :: transaction where
  "pay_bob_faster = received (eth ''0xa3'' 12 8 (Some bob) 1000 [])"

definition pay_carol :: transaction where
  "pay_carol = received (eth ''0xa4'' 6 4 (Some carol) 1000 [])"

definition self_send :: transaction where
  "self_send = received (eth ''0xa5'' 6 4 (Some alice) 0 [])"

definition self_send_faster :: transaction where
  "self_send_faster = received (eth ''0xa6'' 12 8 (Some alice) 0 [])"

definition deploy :: transaction where
  "deploy = received (eth ''0xa7'' 12 8 None 0 [0x60, 0x80])"

definition unsigned_tx :: transaction where
  "unsigned_tx = received (eth ''0xff'' 6 4 (Some bob) 1000 [])"

definition huge_caps :: transaction where
  "huge_caps = received (eth ''0xa8'' (2 ^ 62) (2 ^ 62) (Some bob) 1000 [])"

definition pay_carol_dear :: transaction where
  "pay_carol_dear = received (eth ''0xab'' 18 12 (Some carol) 1000 [])"

definition signers :: "(string \<times> address) list" where
  "signers = [(''0xa1'', alice), (''0xa2'', alice), (''0xa3'', alice), (''0xa4'', alice),
              (''0xa5'', alice), (''0xa6'', alice), (''0xa7'', alice), (''0xa8'', alice),
              (''0xab'', alice)]"

definition sample_Sender :: sender_recovery where
  "sample_Sender c t = (if ChainId t = c then map_of signers (Hash t) else None)"

definition empty_client :: EthClient where
  "empty_client = \<lparr>storedTransactions = Map.empty, transactionsMutex = False\<rparr>"

text \<open>
  Clients built by \<^verbatim>\<open>StoreTransaction\<close> from the empty one; each definition names the
  order its scan took.
\<close>

definition stored1 :: EthClient where
  "stored1 = fst (StoreTransaction sample_Sender [] empty_client pay_bob)"

definition stored_equal_caps :: EthClient where
  "stored_equal_caps = fst (StoreTransaction sample_Sender [''0xa1''] stored1 pay_bob_again)"

definition stored_two_recipients :: EthClient where
  "stored_two_recipients = fst (StoreTransaction sample_Sender [''0xa1''] stored1 pay_carol)"

definition sped_up_first :: EthClient where
  "sped_up_first =
     fst (StoreTransaction sample_Sender [''0xa1'', ''0xa2''] stored_equal_caps pay_bob_faster)"

definition canceled1 :: EthClient where
  "canceled1 = fst (StoreTransaction sample_Sender [''0xa1''] stored1 self_send_faster)"

definition stored_self_send :: EthClient where
  "stored_self_send = fst (StoreTransaction sample_Sender [] empty_client self_send)"

definition stored_deploy :: EthClient where
  "stored_deploy = fst (StoreTransaction sample_Sender [] empty_client deploy)"

definition canceled_then_carol :: EthClient where
  "canceled_then_carol = fst (StoreTransaction sample_Sender [''0xa1''] canceled1 pay_carol)"

definition stored_dear :: EthClient where
  "stored_dear = fst (StoreTransaction sample_Sender [''0xa1''] stored1 pay_carol_dear)"

definition stored_huge :: EthClient where
  "stored_huge = fst (StoreTransaction sample_Sender [] empty_client huge_caps)"

text \<open>Answers of the node to \<^verbatim>\<open>eth_sendRawTransaction\<close> used below.\<close>

definition timeout_then_ok :: send where
  "timeout_then_ok hash hex =
     (if hash = ''0xa1'' then (False, Some ''context deadline exceeded'') else (False, None))"

definition all_ok :: send where
  "all_ok hash hex = (False, None)"

definition nonce_too_low :: send where
  "nonce_too_low hash hex = (True, Some ''nonce too low'')"

text \<open>
  Clients left by a tick of the monitor: \<open>leaked\<close> after a tick on \<open>stored1\<close> whose one
  call of \<^verbatim>\<open>sendTransaction\<close> timed out, \<open>broadcast_faster\<close> after a tick at gas price 15
  on \<open>sped_up_first\<close>, where only \<open>pay_bob_faster\<close> has the caps for it.
\<close>

definition leaked :: EthClient where
  "leaked = fst (MonitorGas_tick timeout_then_ok (Some 5) [''0xa1''] stored1)"

definition broadcast_faster :: EthClient where
  "broadcast_faster =
     fst (MonitorGas_tick all_ok (Some 15) [''0xa2'', ''0xa3'', ''0xa1''] sped_up_first)"

text \<open>What is read off a client: the status under a key, and the number of entries.\<close>

definition status_of :: "EthClient \<Rightarrow> string \<Rightarrow> TransactionStatus option" where
  "status_of ec h = map_option Status (storedTransactions ec h)"

definition store_size :: "EthClient \<Rightarrow> nat" where
  "store_size ec = card (dom (storedTransactions ec))"

text \<open>
  The test of the loop on an entry: its status is \<^verbatim>\<open>STORED\<close> and its sum of caps is at
  least the gas price, both as \<^verbatim>\<open>int64\<close>.
\<close>

definition eligible :: "64 word \<Rightarrow> EthClient \<Rightarrow> string \<Rightarrow> bool" where
  "eligible g ec h =
     (case storedTransactions ec h of
        None \<Rightarrow> False
      | Some tx \<Rightarrow> Status tx = STORED \<and> sint g \<le> sint (gasCap tx))"

text \<open>
  What a tick leaves under a key it called \<^verbatim>\<open>sendTransaction\<close> for, by the answer to
  that call.
\<close>

definition status_after_send :: "send \<Rightarrow> EthClient \<Rightarrow> EthClient \<Rightarrow> string \<Rightarrow> bool" where
  "status_after_send sendTransaction ec ec' h =
     (case storedTransactions ec h of
        None \<Rightarrow> False
      | Some tx \<Rightarrow>
          Status tx = STORED \<and>
          (case sendTransaction h (RawHex tx) of
             (isRPCErr, None) \<Rightarrow> status_of ec' h = Some BROADCASTED
           | (isRPCErr, Some err) \<Rightarrow>
               if isRPCErr then status_of ec' h = Some FAILED
               else status_of ec' h = Some STORED))"

section \<open>The sample clients, evaluated\<close>

lemmas sample_defs = eth_def received_def pay_bob_def pay_bob_again_def pay_bob_faster_def
  pay_carol_def pay_carol_dear_def self_send_def self_send_faster_def deploy_def unsigned_tx_def huge_caps_def
  signers_def sample_Sender_def empty_client_def alice_def bob_def carol_def

lemmas run_defs = StoreTransaction_def loop_body_def changeTransactionStatus_def gasCap_def
  Int64_def Let_def

lemma sample_caps:
  "sint (gasCap pay_bob) = 10" "sint (gasCap pay_bob_again) = 10" "sint (gasCap pay_bob_faster) = 20"
  "sint (gasCap pay_carol) = 10" "sint (gasCap self_send) = 10" "sint (gasCap self_send_faster) = 20"
  "sint (gasCap deploy) = 20" "sint (gasCap unsigned_tx) = 10"
  by (simp_all add: gasCap_def Int64_def sample_defs)

lemma stored1_eq:
  "stored1 = \<lparr>storedTransactions = [''0xa1'' \<mapsto> pay_bob], transactionsMutex = False\<rparr>"
  by (simp add: stored1_def StoreTransaction_def sample_defs)

lemma stored_self_send_eq:
  "stored_self_send = \<lparr>storedTransactions = [''0xa5'' \<mapsto> self_send], transactionsMutex = False\<rparr>"
  by (simp add: stored_self_send_def StoreTransaction_def sample_defs)

lemma stored_deploy_eq:
  "stored_deploy = \<lparr>storedTransactions = [''0xa7'' \<mapsto> deploy], transactionsMutex = False\<rparr>"
  by (simp add: stored_deploy_def StoreTransaction_def sample_defs)

lemma stored_two_recipients_eq:
  "stored_two_recipients =
     \<lparr>storedTransactions = [''0xa1'' \<mapsto> pay_bob, ''0xa4'' \<mapsto> pay_carol], transactionsMutex = False\<rparr>"
  by (simp add: stored_two_recipients_def stored1_eq run_defs sample_defs)

lemma stored_equal_caps_eq:
  "stored_equal_caps =
     \<lparr>storedTransactions = [''0xa1'' \<mapsto> pay_bob, ''0xa2'' \<mapsto> pay_bob_again], transactionsMutex = False\<rparr>"
  by (simp add: stored_equal_caps_def stored1_eq run_defs sample_defs)

lemma canceled1_eq:
  "canceled1 =
     \<lparr>storedTransactions = [''0xa1'' \<mapsto> pay_bob\<lparr>Status := CANCELED\<rparr>], transactionsMutex = False\<rparr>"
  by (simp add: canceled1_def stored1_eq run_defs sample_defs)

lemma canceled_then_carol_eq:
  "canceled_then_carol =
     \<lparr>storedTransactions = [''0xa1'' \<mapsto> pay_bob\<lparr>Status := CANCELED\<rparr>, ''0xa4'' \<mapsto> pay_carol],
      transactionsMutex = False\<rparr>"
  by (simp add: canceled_then_carol_def canceled1_eq run_defs sample_defs)

lemma stored_dear_eq:
  "stored_dear =
     \<lparr>storedTransactions = [''0xa1'' \<mapsto> pay_bob, ''0xab'' \<mapsto> pay_carol_dear],
      transactionsMutex = False\<rparr>"
  by (simp add: stored_dear_def stored1_eq run_defs sample_defs)

lemma sped_up_first_eq:
  "sped_up_first =
     \<lparr>storedTransactions = [''0xa2'' \<mapsto> pay_bob_again, ''0xa1'' \<mapsto> pay_bob\<lparr>Status := SPEDUP\<rparr>,
        ''0xa3'' \<mapsto> pay_bob_faster],
      transactionsMutex = False\<rparr>"
  by (simp add: sped_up_first_def stored_equal_caps_eq run_defs Let_def sample_defs)

lemma stored_huge_eq:
  "stored_huge = \<lparr>storedTransactions = [''0xa8'' \<mapsto> huge_caps], transactionsMutex = False\<rparr>"
  by (simp add: stored_huge_def StoreTransaction_def sample_defs)

section \<open>Properties of the status state machine\<close>

lemma transition_loop_member:
  "transition_loop m hash trx newStatus xs =
     (if newStatus \<in> set xs then Some (m(hash \<mapsto> trx\<lparr>Status := newStatus\<rparr>)) else None)"
  by (induction xs) auto

lemma allowed_pairs:
  "newStatus \<in> set (allowedTransitions old) \<longleftrightarrow>
     (old, newStatus) \<in> {(STORED, CANCELED), (STORED, SPEDUP), (STORED, FAILED),
                          (STORED, BROADCASTED), (CANCELED, SPEDUP)}"
  by (cases old; cases newStatus) simp_all

text \<open>
  Run with the mutex free, \<^verbatim>\<open>changeTransactionStatus\<close> fails with \<^verbatim>\<open>transaction not found\<close>
  when the hash is no key of the map; fails with \<^verbatim>\<open>invalid status transition\<close> when the
  hash is a key and the pair of the current and the new status is none of STORED to
  CANCELED, STORED to SPEDUP, STORED to FAILED, STORED to BROADCASTED, CANCELED to SPEDUP;
  and otherwise returns nil with the status of that record, and nothing else, set to the
  new status. Each failure returns the client it was given.
\<close>

theorem changeTransactionStatus_table:
  assumes "\<not> transactionsMutex ec"
  shows "(case storedTransactions ec h of
      None \<Rightarrow> changeTransactionStatus ec h s = (ec, Returns (Some ''transaction not found''))
    | Some trx \<Rightarrow>
        if (Status trx, s) \<in> {(STORED, CANCELED), (STORED, SPEDUP), (STORED, FAILED),
                               (STORED, BROADCASTED), (CANCELED, SPEDUP)}
        then changeTransactionStatus ec h s =
               (ec\<lparr>storedTransactions := (storedTransactions ec)(h \<mapsto> trx\<lparr>Status := s\<rparr>)\<rparr>,
                Returns None)
        else changeTransactionStatus ec h s =
               (ec, Returns (Some (''invalid status transition from '' @ String (Status trx) @
                  '' to '' @ String s @ '' for transaction: '' @ h))))"
proof (cases "storedTransactions ec h")
  case None
  with assms show ?thesis by (simp add: changeTransactionStatus_def)
next
  case (Some trx)
  with assms show ?thesis
    by (simp add: changeTransactionStatus_def transition_loop_member allowed_pairs)
qed

text \<open>The three cases of the theorem, at a client with one stored transaction.\<close>

theorem changeTransactionStatus_table_witness:
  "\<not> transactionsMutex stored1 \<and>
   changeTransactionStatus stored1 ''0xa9'' CANCELED =
     (stored1, Returns (Some ''transaction not found'')) \<and>
   changeTransactionStatus stored1 ''0xa1'' STORED =
     (stored1,
      Returns (Some ''invalid status transition from STORED to STORED for transaction: 0xa1'')) \<and>
   changeTransactionStatus stored1 ''0xa1'' CANCELED =
     (stored1\<lparr>storedTransactions := [''0xa1'' \<mapsto> pay_bob\<lparr>Status := CANCELED\<rparr>]\<rparr>, Returns None)"
  using changeTransactionStatus_table [of stored1 "''0xa9''" CANCELED]
    changeTransactionStatus_table [of stored1 "''0xa1''" STORED]
    changeTransactionStatus_table [of stored1 "''0xa1''" CANCELED]
  by (simp add: stored1_eq pay_bob_def received_def)

text \<open>
  \<^verbatim>\<open>CancelTransaction\<close> on a stored transaction, twice: the second call is refused and the
  status stays CANCELED.
\<close>

lemma CancelTransaction_twice:
  assumes "\<not> transactionsMutex ec" "storedTransactions ec h = Some trx" "Status trx = STORED"
  shows "CancelTransaction ec h =
      (ec\<lparr>storedTransactions := (storedTransactions ec)(h \<mapsto> trx\<lparr>Status := CANCELED\<rparr>)\<rparr>,
       Returns None)"
    and "CancelTransaction (fst (CancelTransaction ec h)) h =
      (fst (CancelTransaction ec h),
       Returns (Some (''invalid status transition from CANCELED to CANCELED for transaction: '' @ h)))"
  using assms
  by (simp_all add: CancelTransaction_def changeTransactionStatus_def transition_loop_member)

section \<open>Properties of the validators\<close>

lemma isValidTxHash_returns: "\<exists>e. isValidTxHash DecodeString param = Returns e"
  by (cases param) (auto simp: isValidTxHash_def split: option.splits)

lemma isValidHexRawTx_returns:
  "(\<exists>e. isValidHexRawTx rawTx = Returns e) \<longleftrightarrow> (\<forall>s. rawTx = JString s \<longrightarrow> 2 \<le> length s)"
  by (cases rawTx) (auto simp: isValidHexRawTx_def)

text \<open>
  C10. \<^verbatim>\<open>isValidHexRawTx\<close> panics on a string parameter shorter than two bytes: on the
  empty string and on a string of one character it returns neither nil nor an error.
\<close>

theorem isValidHexRawTx_short_string_panics:
  "isValidHexRawTx (JString []) = Panics SliceBoundsOutOfRange \<and>
   isValidHexRawTx (JString ''0'') = Panics SliceBoundsOutOfRange"
  by (simp add: isValidHexRawTx_def)

section \<open>Properties of the scan\<close>

lemma Int64_word_of_int: "Int64 x = word_of_int x"
  by (simp add: Int64_def)

text \<open>
  With both caps in the range from 0 to \<open>2 ^ 62\<close> the \<^verbatim>\<open>int64\<close> sum is the sum of the
  caps, so the comparisons of the code are those of the numbers.
\<close>

lemma gasCap_in_range:
  assumes "0 \<le> GasFeeCap (Transaction tx)" "GasFeeCap (Transaction tx) < 2 ^ 62"
    "0 \<le> GasTipCap (Transaction tx)" "GasTipCap (Transaction tx) < 2 ^ 62"
  shows "sint (gasCap tx) = GasFeeCap (Transaction tx) + GasTipCap (Transaction tx)"
proof -
  have "gasCap tx = word_of_int (GasFeeCap (Transaction tx) + GasTipCap (Transaction tx))"
    by (simp add: gasCap_def Int64_word_of_int)
  moreover have "signed_take_bit 63 (GasFeeCap (Transaction tx) + GasTipCap (Transaction tx)) =
      GasFeeCap (Transaction tx) + GasTipCap (Transaction tx)"
    using assms by (intro signed_take_bit_int_eq_self) simp_all
  ultimately show ?thesis
    using sint_sbintrunc' [where 'a=64, of "GasFeeCap (Transaction tx) + GasTipCap (Transaction tx)"]
    by (simp del: of_int_add)
qed

lemma Int64_zero: "Int64 0 = 0"
  by (simp add: Int64_def)

lemma changeTransactionStatus_free:
  "\<not> transactionsMutex ec \<Longrightarrow>
   changeTransactionStatus ec h s =
     (case storedTransactions ec h of
        None \<Rightarrow> (ec, Returns (Some ''transaction not found''))
      | Some trx \<Rightarrow>
          if s \<in> set (allowedTransitions (Status trx))
          then (ec\<lparr>storedTransactions := (storedTransactions ec)(h \<mapsto> trx\<lparr>Status := s\<rparr>)\<rparr>,
                Returns None)
          else (ec, Returns (Some (''invalid status transition from '' @ String (Status trx) @
                  '' to '' @ String s @ '' for transaction: '' @ h))))"
  by (simp add: changeTransactionStatus_def transition_loop_member split: option.splits)

lemma loop_body_duplicate:
  "loop_body Sender tx ec c (Hash (Transaction tx)) oldTx =
     Leave ec (Returns (Some (''already '' @ String (Status oldTx))))"
  by (simp add: loop_body_def)

lemma loop_body_passed_by:
  "k \<noteq> Hash (Transaction tx) \<Longrightarrow> passed_by Sender tx oldTx \<Longrightarrow>
   loop_body Sender tx ec c k oldTx = Continue ec c"
  by (auto simp: loop_body_def passed_by_def same_account_def split: option.splits)

lemma loop_body_break:
  "k \<noteq> Hash (Transaction tx) \<Longrightarrow> Status oldTx \<noteq> SPEDUP \<Longrightarrow>
   Sender (ChainId (Transaction tx)) (Transaction oldTx) \<noteq> None \<Longrightarrow>
   Sender (ChainId (Transaction tx)) (Transaction tx) = None \<Longrightarrow>
   loop_body Sender tx ec c k oldTx = Break"
  by (auto simp: loop_body_def split: option.splits)

lemma loop_body_unmatched:
  "k \<noteq> Hash (Transaction tx) \<Longrightarrow> unmatched Sender tx oldTx \<Longrightarrow>
   loop_body Sender tx ec c k oldTx = Continue ec c"
  by (auto simp: loop_body_def same_account_def unmatched_def cancel_test_def speedup_test_def
      split: option.splits)

lemma loop_body_cancel:
  "k \<noteq> Hash (Transaction tx) \<Longrightarrow> Status oldTx \<noteq> SPEDUP \<Longrightarrow> same_account Sender tx oldTx \<Longrightarrow>
   Sender (ChainId (Transaction tx)) (Transaction tx) = Some a \<Longrightarrow>
   cancel_test a tx oldTx \<Longrightarrow>
   loop_body Sender tx ec c k oldTx =
     (case changeTransactionStatus ec k CANCELED of
        (ec', Returns (Some err)) \<Rightarrow> Continue ec' True
      | (ec', Returns None) \<Rightarrow> Leave ec' (Returns None)
      | (ec', Panics p) \<Rightarrow> Leave ec' (Panics p)
      | (ec', Blocks) \<Rightarrow> Leave ec' Blocks)"
  by (auto simp: loop_body_def same_account_def cancel_test_def split: option.splits)

lemma loop_body_speedup:
  "k \<noteq> Hash (Transaction tx) \<Longrightarrow> Status oldTx \<noteq> SPEDUP \<Longrightarrow> same_account Sender tx oldTx \<Longrightarrow>
   Sender (ChainId (Transaction tx)) (Transaction tx) = Some a \<Longrightarrow>
   \<not> cancel_test a tx oldTx \<Longrightarrow> speedup_test tx oldTx \<Longrightarrow>
   loop_body Sender tx ec c k oldTx =
     (case changeTransactionStatus ec k SPEDUP of
        (ec', Returns (Some err)) \<Rightarrow> Leave ec' (Returns (Some err))
      | (ec', Returns None) \<Rightarrow>
          Leave (ec'\<lparr>storedTransactions :=
                   (storedTransactions ec')(Hash (Transaction tx) \<mapsto> tx\<lparr>Status := STORED\<rparr>)\<rparr>)
            (Returns None)
      | (ec', Panics p) \<Rightarrow> Leave ec' (Panics p)
      | (ec', Blocks) \<Rightarrow> Leave ec' Blocks)"
  by (auto simp: loop_body_def same_account_def cancel_test_def speedup_test_def
      split: option.splits)

lemma range_loop_append:
  assumes "\<And>k oldTx c. k \<in> set pre \<Longrightarrow> storedTransactions ec k = Some oldTx \<Longrightarrow>
             \<exists>c'. loop_body Sender tx ec c k oldTx = Continue ec c'"
  shows "\<exists>c'. range_loop Sender tx ec c (pre @ rest) = range_loop Sender tx ec c' rest"
  using assms
proof (induction pre arbitrary: c)
  case Nil
  then show ?case by auto
next
  case (Cons k pre)
  show ?case
  proof (cases "storedTransactions ec k")
    case None
    then show ?thesis using Cons.IH [of c] Cons.prems by simp
  next
    case (Some oldTx)
    then obtain c1 where b: "loop_body Sender tx ec c k oldTx = Continue ec c1"
      using Cons.prems [of k oldTx c] by auto
    obtain c' where "range_loop Sender tx ec c1 (pre @ rest) = range_loop Sender tx ec c' rest"
      using Cons.IH [of c1] Cons.prems by auto
    then show ?thesis using Some b by auto
  qed
qed

lemma range_loop_append_same:
  assumes "\<And>k oldTx. k \<in> set pre \<Longrightarrow> storedTransactions ec k = Some oldTx \<Longrightarrow>
             loop_body Sender tx ec c k oldTx = Continue ec c"
  shows "range_loop Sender tx ec c (pre @ rest) = range_loop Sender tx ec c rest"
  using assms
proof (induction pre)
  case Nil
  then show ?case by simp
next
  case (Cons k pre)
  then show ?case by (cases "storedTransactions ec k") auto
qed

lemma unlock_free: "\<not> transactionsMutex ec \<Longrightarrow> ec\<lparr>transactionsMutex := False\<rparr> = ec"
  by simp

lemma loop_body_cancel_stored:
  assumes "\<not> transactionsMutex ec" "k \<noteq> Hash (Transaction tx)"
    "storedTransactions ec k = Some oldTx" "Status oldTx = STORED"
    "same_account Sender tx oldTx" "Sender (ChainId (Transaction tx)) (Transaction tx) = Some a"
    "cancel_test a tx oldTx"
  shows "loop_body Sender tx ec c k oldTx =
     Leave (ec\<lparr>storedTransactions := (storedTransactions ec)(k \<mapsto> oldTx\<lparr>Status := CANCELED\<rparr>)\<rparr>)
       (Returns None)"
  using assms by (simp add: loop_body_cancel changeTransactionStatus_free)

lemma loop_body_cancel_refused:
  assumes "\<not> transactionsMutex ec" "k \<noteq> Hash (Transaction tx)"
    "storedTransactions ec k = Some oldTx" "Status oldTx \<noteq> STORED" "Status oldTx \<noteq> SPEDUP"
    "same_account Sender tx oldTx" "Sender (ChainId (Transaction tx)) (Transaction tx) = Some a"
    "cancel_test a tx oldTx"
  shows "loop_body Sender tx ec c k oldTx = Continue ec True"
  using assms by (cases "Status oldTx") (simp_all add: loop_body_cancel changeTransactionStatus_free)

lemma loop_body_speedup_stored:
  assumes "\<not> transactionsMutex ec" "k \<noteq> Hash (Transaction tx)"
    "storedTransactions ec k = Some oldTx" "Status oldTx = STORED"
    "same_account Sender tx oldTx" "Sender (ChainId (Transaction tx)) (Transaction tx) = Some a"
    "\<not> cancel_test a tx oldTx" "speedup_test tx oldTx"
  shows "loop_body Sender tx ec c k oldTx =
     Leave (ec\<lparr>storedTransactions := (storedTransactions ec)
               (k \<mapsto> oldTx\<lparr>Status := SPEDUP\<rparr>, Hash (Transaction tx) \<mapsto> tx\<lparr>Status := STORED\<rparr>)\<rparr>)
       (Returns None)"
  using assms by (simp add: loop_body_speedup changeTransactionStatus_free)

lemma range_order_split:
  assumes "range_order ec order" "storedTransactions ec k = Some oldTx"
  shows "\<exists>pre post. order = pre @ k # post \<and> k \<notin> set pre"
proof -
  have "k \<in> set order" using assms by (auto simp: range_order_def)
  then show ?thesis using split_list_first [of k order] by blast
qed

lemma loop_body_unrecovered:
  assumes "Sender (ChainId (Transaction tx)) (Transaction tx) = None" "k \<noteq> Hash (Transaction tx)"
  shows "loop_body Sender tx ec c k r = Continue ec c \<or> loop_body Sender tx ec c k r = Break"
  using assms by (auto simp: loop_body_def split: option.splits)

lemma range_loop_unrecovered:
  assumes "Sender (ChainId (Transaction tx)) (Transaction tx) = None"
  shows "range_loop Sender tx ec c order = Fallen ec c \<or>
    (\<exists>existing. storedTransactions ec (Hash (Transaction tx)) = Some existing \<and>
       range_loop Sender tx ec c order =
         Left ec (Returns (Some (''already '' @ String (Status existing)))))"
proof (induction order)
  case Nil
  then show ?case by simp
next
  case (Cons k order)
  show ?case
  proof (cases "storedTransactions ec k")
    case None
    then show ?thesis using Cons.IH by simp
  next
    case (Some r)
    show ?thesis
    proof (cases "k = Hash (Transaction tx)")
      case True
      then show ?thesis using Some by (simp add: loop_body_duplicate)
    next
      case False
      then show ?thesis
        using Some Cons.IH loop_body_unrecovered [where Sender=Sender and tx=tx and k=k and ec=ec and c=c and r=r] assms
        by auto
    qed
  qed
qed

lemma loop_body_cases:
  "loop_body Sender tx ec c k r =
     (if k = Hash (Transaction tx) then Leave ec (Returns (Some (''already '' @ String (Status r))))
      else if passed_by Sender tx r then Continue ec c
      else
        (case Sender (ChainId (Transaction tx)) (Transaction tx) of
           None \<Rightarrow> Break
         | Some a \<Rightarrow>
             if To (Transaction tx) = None then Leave ec (Panics NilPointerDereference)
             else if cancel_test a tx r then
               (case changeTransactionStatus ec k CANCELED of
                  (ec', Returns (Some err)) \<Rightarrow> Continue ec' True
                | (ec', Returns None) \<Rightarrow> Leave ec' (Returns None)
                | (ec', Panics p) \<Rightarrow> Leave ec' (Panics p)
                | (ec', Blocks) \<Rightarrow> Leave ec' Blocks)
             else if To (Transaction r) = None then Leave ec (Panics NilPointerDereference)
             else if speedup_test tx r then
               (case changeTransactionStatus ec k SPEDUP of
                  (ec', Returns (Some err)) \<Rightarrow> Leave ec' (Returns (Some err))
                | (ec', Returns None) \<Rightarrow>
                    Leave (ec'\<lparr>storedTransactions :=
                             (storedTransactions ec')(Hash (Transaction tx) \<mapsto> tx\<lparr>Status := STORED\<rparr>)\<rparr>)
                      (Returns None)
                | (ec', Panics p) \<Rightarrow> Leave ec' (Panics p)
                | (ec', Blocks) \<Rightarrow> Leave ec' Blocks)
             else Continue ec c))"
  by (auto simp: loop_body_def Let_def passed_by_def same_account_def cancel_test_def
      speedup_test_def split: option.splits)

lemma changeTransactionStatus_result:
  "changeTransactionStatus ec k s = (ec', res) \<Longrightarrow>
     (res = Blocks \<and> ec' = ec \<and> transactionsMutex ec) \<or>
     (\<exists>e. res = Returns (Some e) \<and> ec' = ec \<and> \<not> transactionsMutex ec) \<or>
     (\<exists>r. res = Returns None \<and> \<not> transactionsMutex ec \<and> storedTransactions ec k = Some r \<and>
        s \<in> set (allowedTransitions (Status r)) \<and>
        ec' = ec\<lparr>storedTransactions := (storedTransactions ec)(k \<mapsto> r\<lparr>Status := s\<rparr>)\<rparr>)"
  by (auto simp: changeTransactionStatus_def transition_loop_member split: option.splits if_splits)

lemma unmatched_iff:
  "Sender (ChainId (Transaction tx)) (Transaction tx) = Some a \<Longrightarrow>
   unmatched Sender tx r \<longleftrightarrow>
     same_account Sender tx r \<and> To (Transaction tx) \<noteq> None \<and> To (Transaction r) \<noteq> None \<and>
     \<not> cancel_test a tx r \<and> \<not> speedup_test tx r"
  by (simp add: unmatched_def)

lemma loop_body_live:
  assumes "k \<noteq> Hash (Transaction tx)" "\<not> passed_by Sender tx r"
    "Sender (ChainId (Transaction tx)) (Transaction tx) = Some a"
  shows "loop_body Sender tx ec c k r =
     (if To (Transaction tx) = None then Leave ec (Panics NilPointerDereference)
      else if cancel_test a tx r then
        (case changeTransactionStatus ec k CANCELED of
           (ec', Returns (Some err)) \<Rightarrow> Continue ec' True
         | (ec', Returns None) \<Rightarrow> Leave ec' (Returns None)
         | (ec', Panics p) \<Rightarrow> Leave ec' (Panics p)
         | (ec', Blocks) \<Rightarrow> Leave ec' Blocks)
      else if To (Transaction r) = None then Leave ec (Panics NilPointerDereference)
      else if speedup_test tx r then
        (case changeTransactionStatus ec k SPEDUP of
           (ec', Returns (Some err)) \<Rightarrow> Leave ec' (Returns (Some err))
         | (ec', Returns None) \<Rightarrow>
             Leave (ec'\<lparr>storedTransactions :=
                      (storedTransactions ec')(Hash (Transaction tx) \<mapsto> tx\<lparr>Status := STORED\<rparr>)\<rparr>)
               (Returns None)
         | (ec', Panics p) \<Rightarrow> Leave ec' (Panics p)
         | (ec', Blocks) \<Rightarrow> Leave ec' Blocks)
      else Continue ec c)"
  using assms by (simp add: loop_body_cases)

lemma loop_body_Continue:
  assumes "loop_body Sender tx ec c k r = Continue ec' c'"
  shows "ec' = ec \<and> (c \<longrightarrow> c') \<and>
    (\<not> c' \<longrightarrow> Status r \<noteq> SPEDUP \<longrightarrow> same_account Sender tx r \<longrightarrow> unmatched Sender tx r)"
proof -
  consider (dup) "k = Hash (Transaction tx)"
    | (passed) "k \<noteq> Hash (Transaction tx)" "passed_by Sender tx r"
    | (live) "k \<noteq> Hash (Transaction tx)" "\<not> passed_by Sender tx r"
    by blast
  then show ?thesis
  proof cases
    case dup
    then show ?thesis using assms by (simp add: loop_body_duplicate)
  next
    case passed
    then have "ec' = ec" "c' = c" using assms by (simp_all add: loop_body_passed_by)
    moreover have "\<not> (Status r \<noteq> SPEDUP \<and> same_account Sender tx r)"
      using passed(2) by (auto simp: passed_by_def same_account_def split: option.splits)
    ultimately show ?thesis by blast
  next
    case live
    show ?thesis
    proof (cases "Sender (ChainId (Transaction tx)) (Transaction tx)")
      case None
      then have "loop_body Sender tx ec c k r = Break"
        using live by (simp add: loop_body_cases)
      then show ?thesis using assms by simp
    next
      case (Some a)
      note body = loop_body_live [OF live Some, of ec c]
      have sa: "same_account Sender tx r" using live(2) Some by (simp add: passed_by_def)
      show ?thesis
      proof (cases "To (Transaction tx) = None")
        case True
        then show ?thesis using assms body by simp
      next
        case tx_to: False
        show ?thesis
        proof (cases "cancel_test a tx r")
          case True
          obtain ec1 res where ch: "changeTransactionStatus ec k CANCELED = (ec1, res)"
            by (cases "changeTransactionStatus ec k CANCELED")
          from changeTransactionStatus_result [OF ch] assms body tx_to True ch
          show ?thesis by auto
        next
          case nc: False
          show ?thesis
          proof (cases "To (Transaction r) = None")
            case True
            then show ?thesis using assms body tx_to nc by simp
          next
            case r_to: False
            show ?thesis
            proof (cases "speedup_test tx r")
              case True
              obtain ec2 res2 where ch2: "changeTransactionStatus ec k SPEDUP = (ec2, res2)"
                by (cases "changeTransactionStatus ec k SPEDUP")
              from changeTransactionStatus_result [OF ch2] assms body tx_to nc r_to True ch2
              show ?thesis by auto
            next
              case False
              then have "unmatched Sender tx r"
                using Some sa tx_to nc r_to by (simp add: unmatched_iff)
              moreover have "ec' = ec" "c' = c"
                using assms body tx_to nc r_to False by simp_all
              ultimately show ?thesis by blast
            qed
          qed
        qed
      qed
    qed
  qed
qed

lemma loop_body_Leave_nil:
  assumes leave: "loop_body Sender tx ec c k r = Leave ec' (Returns None)"
    and k: "storedTransactions ec k = Some r"
    and fresh: "storedTransactions ec (Hash (Transaction tx)) = None"
  shows "storedTransactions ec' \<noteq>
    (storedTransactions ec)(Hash (Transaction tx) \<mapsto> tx\<lparr>Status := STORED\<rparr>)"
proof -
  have kh: "k \<noteq> Hash (Transaction tx)" using k fresh by auto
  have np: "\<not> passed_by Sender tx r" using leave kh by (auto simp: loop_body_passed_by)
  then have ns: "Status r \<noteq> SPEDUP" by (simp add: passed_by_def)
  obtain a where a: "Sender (ChainId (Transaction tx)) (Transaction tx) = Some a"
    using leave kh np by (cases "Sender (ChainId (Transaction tx)) (Transaction tx)")
      (auto simp: loop_body_cases)
  note body = loop_body_live [OF kh np a, of ec c]
  obtain ec1 res where ch: "changeTransactionStatus ec k CANCELED = (ec1, res)"
    by (cases "changeTransactionStatus ec k CANCELED")
  obtain ec2 res2 where ch2: "changeTransactionStatus ec k SPEDUP = (ec2, res2)"
    by (cases "changeTransactionStatus ec k SPEDUP")
  consider (cancel) "To (Transaction tx) \<noteq> None" "cancel_test a tx r"
      "loop_body Sender tx ec c k r =
        (case (ec1, res) of
           (ec', Returns (Some err)) \<Rightarrow> Continue ec' True
         | (ec', Returns None) \<Rightarrow> Leave ec' (Returns None)
         | (ec', Panics p) \<Rightarrow> Leave ec' (Panics p)
         | (ec', Blocks) \<Rightarrow> Leave ec' Blocks)"
    | (speedup) "To (Transaction tx) \<noteq> None" "\<not> cancel_test a tx r" "To (Transaction r) \<noteq> None"
      "speedup_test tx r"
      "loop_body Sender tx ec c k r =
        (case (ec2, res2) of
           (ec', Returns (Some err)) \<Rightarrow> Leave ec' (Returns (Some err))
         | (ec', Returns None) \<Rightarrow>
             Leave (ec'\<lparr>storedTransactions :=
                      (storedTransactions ec')(Hash (Transaction tx) \<mapsto> tx\<lparr>Status := STORED\<rparr>)\<rparr>)
               (Returns None)
         | (ec', Panics p) \<Rightarrow> Leave ec' (Panics p)
         | (ec', Blocks) \<Rightarrow> Leave ec' Blocks)"
    using leave body ch ch2 by (auto split: if_splits)
  then show ?thesis
  proof cases
    case cancel
    then have "storedTransactions ec' (Hash (Transaction tx)) = None"
      using leave changeTransactionStatus_result [OF ch] kh fresh
      by (auto split: outcome.splits option.splits)
    then show ?thesis by (auto simp: fun_eq_iff)
  next
    case speedup
    then have "map_option Status (storedTransactions ec' k) = Some SPEDUP"
      using leave changeTransactionStatus_result [OF ch2] kh
      by (auto split: outcome.splits option.splits)
    moreover have "map_option Status
        (((storedTransactions ec)(Hash (Transaction tx) \<mapsto> tx\<lparr>Status := STORED\<rparr>)) k) \<noteq> Some SPEDUP"
      using kh k ns by simp
    ultimately show ?thesis by metis
  qed
qed

lemma loop_body_Break:
  assumes "loop_body Sender tx ec c k r = Break"
  shows "Sender (ChainId (Transaction tx)) (Transaction tx) = None"
proof (rule ccontr)
  assume "Sender (ChainId (Transaction tx)) (Transaction tx) \<noteq> None"
  then obtain a where a: "Sender (ChainId (Transaction tx)) (Transaction tx) = Some a" by auto
  obtain ec1 res where ch: "changeTransactionStatus ec k CANCELED = (ec1, res)"
    by (cases "changeTransactionStatus ec k CANCELED")
  obtain ec2 res2 where ch2: "changeTransactionStatus ec k SPEDUP = (ec2, res2)"
    by (cases "changeTransactionStatus ec k SPEDUP")
  show False
    using assms a ch ch2
    by (auto simp: loop_body_cases split: if_splits outcome.splits option.splits)
qed

lemma range_loop_fresh:
  assumes "storedTransactions ec (Hash (Transaction tx)) = None"
  shows "(case range_loop Sender tx ec c order of
      Left ec' res \<Rightarrow>
        res = Returns None \<longrightarrow>
        storedTransactions ec' \<noteq>
          (storedTransactions ec)(Hash (Transaction tx) \<mapsto> tx\<lparr>Status := STORED\<rparr>)
    | Fallen ec' c' \<Rightarrow>
        ec' = ec \<and> (c \<longrightarrow> c') \<and>
        (\<not> c' \<longrightarrow> (\<forall>k \<in> set order. \<forall>r. storedTransactions ec k = Some r \<longrightarrow>
           Status r \<noteq> SPEDUP \<longrightarrow> same_account Sender tx r \<longrightarrow> unmatched Sender tx r)))"
proof (induction order arbitrary: c)
  case Nil
  then show ?case by simp
next
  case (Cons k order)
  show ?case
  proof (cases "storedTransactions ec k")
    case None
    then show ?thesis using Cons.IH [of c] by (auto split: loop_end.splits)
  next
    case (Some r)
    show ?thesis
    proof (cases "loop_body Sender tx ec c k r")
      case (Continue ec1 c1)
      from loop_body_Continue [OF this] have 1: "ec1 = ec" "c \<longrightarrow> c1"
        "\<not> c1 \<longrightarrow> Status r \<noteq> SPEDUP \<longrightarrow> same_account Sender tx r \<longrightarrow> unmatched Sender tx r"
        by auto
      show ?thesis
        using Some Continue 1 Cons.IH [of c1] by (auto split: loop_end.splits)
    next
      case Break
      then have "Sender (ChainId (Transaction tx)) (Transaction tx) = None"
        using loop_body_Break [of Sender tx ec c k r] by simp
      then have "\<not> same_account Sender tx r'" for r'
        by (auto simp: same_account_def split: option.splits)
      then show ?thesis using Some Break by simp
    next
      case (Leave ec1 res)
      then show ?thesis
        using Some loop_body_Leave_nil [where Sender=Sender and tx=tx and ec=ec and c=c and k=k
            and r=r and ec'=ec1] assms
        by auto
    qed
  qed
qed

subsection \<open>Two stored transactions of one sender and nonce\<close>

text \<open>
  C1 (amended). Two entries with status STORED and the same sender and nonce can stand
  in the map side by side. What a call guarantees is this: when \<^verbatim>\<open>StoreTransaction\<close>
  returns nil having stored \<open>tx\<close> under a new hash and changed no other entry, every
  entry whose status is not SPEDUP, and whose sender and nonce are those of \<open>tx\<close>, is
  unmatched: both have a recipient, and \<open>tx\<close> passes neither the cancel test nor the
  speed-up test against it.
\<close>

theorem StoreTransaction_stored_beside:
  assumes order: "range_order ec order"
    and fresh: "storedTransactions ec (Hash (Transaction tx)) = None"
    and result: "StoreTransaction Sender order ec tx =
      (ec\<lparr>storedTransactions :=
         (storedTransactions ec)(Hash (Transaction tx) \<mapsto> tx\<lparr>Status := STORED\<rparr>)\<rparr>,
       Returns None)"
    and r: "storedTransactions ec k = Some r" "Status r \<noteq> SPEDUP" "same_account Sender tx r"
  shows "unmatched Sender tx r"
proof (cases "range_loop Sender tx ec False order")
  case (Left ec' res)
  then have "res = Returns None" "storedTransactions ec' =
      (storedTransactions ec)(Hash (Transaction tx) \<mapsto> tx\<lparr>Status := STORED\<rparr>)"
    using result by (auto simp: StoreTransaction_def)
  then show ?thesis
    using range_loop_fresh [where Sender=Sender and tx=tx and ec=ec and c=False and order=order]
      fresh Left
    by simp
next
  case (Fallen ec' c')
  have k: "k \<in> set order" using order r(1) by (auto simp: range_order_def)
  have f: "ec' = ec" "\<not> c' \<longrightarrow> (\<forall>k \<in> set order. \<forall>r. storedTransactions ec k = Some r \<longrightarrow>
           Status r \<noteq> SPEDUP \<longrightarrow> same_account Sender tx r \<longrightarrow> unmatched Sender tx r)"
    using range_loop_fresh [where Sender=Sender and tx=tx and ec=ec and c=False and order=order]
      fresh Fallen
    by auto
  have "\<not> c'"
  proof
    assume c'
    then have "StoreTransaction Sender order ec tx = (ec, Returns None)"
      using Fallen f(1) by (simp add: StoreTransaction_def)
    then have "ec = ec\<lparr>storedTransactions :=
         (storedTransactions ec)(Hash (Transaction tx) \<mapsto> tx\<lparr>Status := STORED\<rparr>)\<rparr>"
      using result by simp
    then have "storedTransactions ec = (storedTransactions ec)(Hash (Transaction tx) \<mapsto> tx\<lparr>Status := STORED\<rparr>)"
      by (metis EthClient.select_convs(1) EthClient.surjective EthClient.update_convs(1))
    then have "storedTransactions ec (Hash (Transaction tx)) \<noteq> None"
      by (metis fun_upd_same option.distinct(1))
    then show False using fresh by simp
  qed
  then show ?thesis using f(2) k r by blast
qed

text \<open>
  The theorem at the second of two transactions that differ only in how the same sum
  of caps is split: it is stored beside the first.
\<close>

theorem StoreTransaction_stored_beside_witness:
  "range_order stored1 [''0xa1''] \<and>
   storedTransactions stored1 (Hash (Transaction pay_bob_again)) = None \<and>
   StoreTransaction sample_Sender [''0xa1''] stored1 pay_bob_again =
     (stored1\<lparr>storedTransactions := (storedTransactions stored1)
        (Hash (Transaction pay_bob_again) \<mapsto> pay_bob_again\<lparr>Status := STORED\<rparr>)\<rparr>,
      Returns None) \<and>
   storedTransactions stored1 ''0xa1'' = Some pay_bob \<and>
   Status pay_bob = STORED \<and>
   same_account sample_Sender pay_bob_again pay_bob \<and>
   unmatched sample_Sender pay_bob_again pay_bob"
proof -
  have order: "range_order stored1 [''0xa1'']"
    by (auto simp: range_order_def stored1_eq)
  have fresh: "storedTransactions stored1 (Hash (Transaction pay_bob_again)) = None"
    by (simp add: stored1_eq sample_defs)
  have result: "StoreTransaction sample_Sender [''0xa1''] stored1 pay_bob_again =
     (stored1\<lparr>storedTransactions := (storedTransactions stored1)
        (Hash (Transaction pay_bob_again) \<mapsto> pay_bob_again\<lparr>Status := STORED\<rparr>)\<rparr>,
      Returns None)"
    by (simp add: stored1_eq run_defs sample_defs)
  have r: "storedTransactions stored1 ''0xa1'' = Some pay_bob" "Status pay_bob \<noteq> SPEDUP"
    "same_account sample_Sender pay_bob_again pay_bob"
    by (simp_all add: stored1_eq same_account_def sample_defs)
  have "Status pay_bob = STORED" by (simp add: sample_defs)
  then show ?thesis
    using StoreTransaction_stored_beside [OF order fresh result r] order fresh result r by blast
qed

text \<open>
  The claim fails after two calls from the empty client: \<open>pay_bob_again\<close> has the sender,
  nonce, recipient, value and data of \<open>pay_bob\<close> and an equal sum of caps, so it is
  stored as a new entry, and both have status STORED.
\<close>

theorem two_stored_same_sender_nonce:
  "stored1 = fst (StoreTransaction sample_Sender [] empty_client pay_bob) \<and>
   stored_equal_caps = fst (StoreTransaction sample_Sender [''0xa1''] stored1 pay_bob_again) \<and>
   range_order empty_client [] \<and> range_order stored1 [''0xa1''] \<and>
   snd (StoreTransaction sample_Sender [] empty_client pay_bob) = Returns None \<and>
   snd (StoreTransaction sample_Sender [''0xa1''] stored1 pay_bob_again) = Returns None \<and>
   storedTransactions stored_equal_caps ''0xa1'' = Some pay_bob \<and>
   storedTransactions stored_equal_caps ''0xa2'' = Some pay_bob_again \<and>
   pay_bob \<noteq> pay_bob_again \<and>
   Status pay_bob = STORED \<and> Status pay_bob_again = STORED \<and>
   sample_Sender (ChainId (Transaction pay_bob)) (Transaction pay_bob) = Some alice \<and>
   sample_Sender (ChainId (Transaction pay_bob_again)) (Transaction pay_bob_again) = Some alice \<and>
   Nonce (Transaction pay_bob) = Nonce (Transaction pay_bob_again)"
proof -
  have a: "range_order empty_client []" "range_order stored1 [''0xa1'']"
    "snd (StoreTransaction sample_Sender [] empty_client pay_bob) = Returns None"
    "snd (StoreTransaction sample_Sender [''0xa1''] stored1 pay_bob_again) = Returns None"
    by (auto simp: range_order_def stored1_eq run_defs sample_defs)
  have b: "storedTransactions stored_equal_caps ''0xa1'' = Some pay_bob"
    "storedTransactions stored_equal_caps ''0xa2'' = Some pay_bob_again"
    by (simp_all add: stored_equal_caps_eq)
  have c: "pay_bob \<noteq> pay_bob_again" "Status pay_bob = STORED" "Status pay_bob_again = STORED"
    "sample_Sender (ChainId (Transaction pay_bob)) (Transaction pay_bob) = Some alice"
    "sample_Sender (ChainId (Transaction pay_bob_again)) (Transaction pay_bob_again) = Some alice"
    "Nonce (Transaction pay_bob) = Nonce (Transaction pay_bob_again)"
    by (simp_all add: sample_defs)
  show ?thesis using a b c by (simp add: stored1_def stored_equal_caps_def)
qed

subsection \<open>The cancel pattern\<close>

text \<open>
  C4 (amended). Let the mutex be free, the hash of \<open>tx\<close> be no key of the map, and
  \<open>oldTx\<close> be an entry with status STORED whose sender, recovered under the signer of
  the chain id of \<open>tx\<close>, and whose nonce are those of \<open>tx\<close>. Let \<open>tx\<close> go to its own
  sender with value 0 and no data, and let its sum of caps, as the \<^verbatim>\<open>int64\<close> the code
  computes, exceed that of \<open>oldTx\<close>. Let every other entry be passed by, or pass the
  cancel test with a status other than STORED (its cancellation is refused and the scan
  goes on), or fail the cancel test and have a recipient. Then, whatever order the scan
  takes, \<^verbatim>\<open>StoreTransaction\<close> returns nil, the status of \<open>oldTx\<close> is CANCELED, nothing
  else in the client has changed, \<open>tx\<close> is not in the map and the map has as many entries
  as before. Of the other entries no less can be asked: one that passes the cancel test
  with status STORED is canceled in the place of \<open>oldTx\<close> when the scan meets it first,
  and one that fails the test and has no recipient makes the speed-up test panic.
\<close>

theorem StoreTransaction_cancel:
  assumes free: "\<not> transactionsMutex ec"
    and order: "range_order ec order"
    and old: "storedTransactions ec k = Some oldTx" "Status oldTx = STORED"
    and fresh: "storedTransactions ec (Hash (Transaction tx)) = None"
    and sender: "Sender (ChainId (Transaction tx)) (Transaction tx) = Some a"
      "Sender (ChainId (Transaction tx)) (Transaction oldTx) = Some a"
    and nonce: "Nonce (Transaction tx) = Nonce (Transaction oldTx)"
    and shape: "To (Transaction tx) = Some a" "Value (Transaction tx) = 0"
      "length (Data (Transaction tx)) = 0"
    and caps: "sint (gasCap oldTx) < sint (gasCap tx)"
    and others: "\<forall>k' r. k' \<noteq> k \<longrightarrow> storedTransactions ec k' = Some r \<longrightarrow>
        passed_by Sender tx r \<or>
        (cancel_test a tx r \<and> Status r \<noteq> STORED) \<or>
        (\<not> cancel_test a tx r \<and> To (Transaction r) \<noteq> None)"
  shows "StoreTransaction Sender order ec tx =
      (ec\<lparr>storedTransactions := (storedTransactions ec)(k \<mapsto> oldTx\<lparr>Status := CANCELED\<rparr>)\<rparr>,
       Returns None) \<and>
     storedTransactions (fst (StoreTransaction Sender order ec tx)) (Hash (Transaction tx)) = None \<and>
     store_size (fst (StoreTransaction Sender order ec tx)) = store_size ec"
proof -
  obtain pre post where split: "order = pre @ k # post" "k \<notin> set pre"
    using range_order_split [OF order old(1)] by auto
  have kh: "k \<noteq> Hash (Transaction tx)" using old fresh by auto
  have same: "same_account Sender tx oldTx"
    using sender nonce by (simp add: same_account_def)
  have ct: "cancel_test a tx oldTx"
    using shape caps by (simp add: cancel_test_def Int64_def)
  have step: "\<exists>c'. loop_body Sender tx ec c k' r = Continue ec c'"
    if "k' \<in> set pre" "storedTransactions ec k' = Some r" for k' r c
  proof -
    have k': "k' \<noteq> k" "k' \<noteq> Hash (Transaction tx)" using that split fresh by auto
    from others k' that consider (passed) "passed_by Sender tx r"
      | (refused) "\<not> passed_by Sender tx r" "cancel_test a tx r" "Status r \<noteq> STORED"
      | (no_match) "\<not> passed_by Sender tx r" "\<not> cancel_test a tx r" "To (Transaction r) \<noteq> None"
      by blast
    then show ?thesis
    proof cases
      case passed
      then show ?thesis using loop_body_passed_by [OF k'(2)] by blast
    next
      case refused
      then have sa: "same_account Sender tx r" "Status r \<noteq> SPEDUP"
        using sender by (auto simp: passed_by_def)
      show ?thesis
        using loop_body_cancel_refused [OF free k'(2) that(2) refused(3) sa(2) sa(1) sender(1)
            refused(2)]
        by blast
    next
      case no_match
      then have sa: "same_account Sender tx r"
        using sender by (auto simp: passed_by_def)
      have "unmatched Sender tx r"
        using sa no_match shape sender
        by (auto simp: unmatched_def cancel_test_def speedup_test_def Int64_def)
      then show ?thesis using loop_body_unmatched [OF k'(2)] by blast
    qed
  qed
  obtain c' where "range_loop Sender tx ec False (pre @ k # post) =
      range_loop Sender tx ec c' (k # post)"
    using range_loop_append [of pre ec Sender tx False "k # post"] step by blast
  then have run: "range_loop Sender tx ec False order =
      Left (ec\<lparr>storedTransactions := (storedTransactions ec)(k \<mapsto> oldTx\<lparr>Status := CANCELED\<rparr>)\<rparr>)
        (Returns None)"
    using split old loop_body_cancel_stored [OF free kh old same sender(1) ct] by simp
  have dom_eq: "dom ((storedTransactions ec)(k \<mapsto> oldTx\<lparr>Status := CANCELED\<rparr>)) = dom (storedTransactions ec)"
    using old by auto
  show ?thesis
    using run kh fresh dom_eq by (simp add: StoreTransaction_def store_size_def)
qed

text \<open>
  The theorem at two clients. In the first a second stored transaction of the account,
  with caps above those of the cancelling one, is met first and stays STORED; in the
  second the scan first meets an entry of the account that was canceled before.
\<close>

theorem StoreTransaction_cancel_witness:
  "range_order stored_dear [''0xab'', ''0xa1''] \<and>
   storedTransactions stored_dear ''0xa1'' = Some pay_bob \<and>
   status_of stored_dear ''0xab'' = Some STORED \<and>
   same_account sample_Sender self_send_faster pay_carol_dear \<and>
   StoreTransaction sample_Sender [''0xab'', ''0xa1''] stored_dear self_send_faster =
     (stored_dear\<lparr>storedTransactions :=
        (storedTransactions stored_dear)(''0xa1'' \<mapsto> pay_bob\<lparr>Status := CANCELED\<rparr>)\<rparr>,
      Returns None) \<and>
   store_size (fst (StoreTransaction sample_Sender [''0xab'', ''0xa1''] stored_dear
     self_send_faster)) = store_size stored_dear \<and>
   range_order canceled_then_carol [''0xa1'', ''0xa4''] \<and>
   storedTransactions canceled_then_carol ''0xa4'' = Some pay_carol \<and>
   status_of canceled_then_carol ''0xa1'' = Some CANCELED \<and>
   StoreTransaction sample_Sender [''0xa1'', ''0xa4''] canceled_then_carol self_send_faster =
     (canceled_then_carol\<lparr>storedTransactions :=
        (storedTransactions canceled_then_carol)(''0xa4'' \<mapsto> pay_carol\<lparr>Status := CANCELED\<rparr>)\<rparr>,
      Returns None)"
proof -
  have sender:
    "sample_Sender (ChainId (Transaction self_send_faster)) (Transaction self_send_faster) = Some alice"
    "sample_Sender (ChainId (Transaction self_send_faster)) (Transaction pay_bob) = Some alice"
    "sample_Sender (ChainId (Transaction self_send_faster)) (Transaction pay_carol) = Some alice"
    by (simp_all add: sample_defs)
  have shape: "To (Transaction self_send_faster) = Some alice"
    "Value (Transaction self_send_faster) = 0" "length (Data (Transaction self_send_faster)) = 0"
    by (simp_all add: sample_defs)
  have nonce: "Nonce (Transaction self_send_faster) = Nonce (Transaction pay_bob)"
    "Nonce (Transaction self_send_faster) = Nonce (Transaction pay_carol)"
    by (simp_all add: sample_defs)
  have caps: "sint (gasCap pay_bob) < sint (gasCap self_send_faster)"
    "sint (gasCap pay_carol) < sint (gasCap self_send_faster)"
    by (simp_all add: sample_caps)
  have dear_caps: "sint (gasCap pay_carol_dear) = 30"
    by (simp add: gasCap_def Int64_def sample_defs)
  have order1: "range_order stored_dear [''0xab'', ''0xa1'']"
    by (auto simp: range_order_def stored_dear_eq)
  have old1: "storedTransactions stored_dear ''0xa1'' = Some pay_bob" "Status pay_bob = STORED"
    by (simp_all add: stored_dear_eq pay_bob_def received_def)
  have free1: "\<not> transactionsMutex stored_dear" by (simp add: stored_dear_eq)
  have fresh1: "storedTransactions stored_dear (Hash (Transaction self_send_faster)) = None"
    by (simp add: stored_dear_eq sample_defs)
  have beside: "status_of stored_dear ''0xab'' = Some STORED"
    "same_account sample_Sender self_send_faster pay_carol_dear"
    by (simp_all add: stored_dear_eq status_of_def same_account_def sample_defs)
  have others1: "\<forall>k' r. k' \<noteq> ''0xa1'' \<longrightarrow> storedTransactions stored_dear k' = Some r \<longrightarrow>
      passed_by sample_Sender self_send_faster r \<or>
      (cancel_test alice self_send_faster r \<and> Status r \<noteq> STORED) \<or>
      (\<not> cancel_test alice self_send_faster r \<and> To (Transaction r) \<noteq> None)"
    using dear_caps sample_caps(6)
    by (auto simp: stored_dear_eq cancel_test_def) (simp add: sample_defs)
  have order2: "range_order canceled_then_carol [''0xa1'', ''0xa4'']"
    by (auto simp: range_order_def canceled_then_carol_eq)
  have old2: "storedTransactions canceled_then_carol ''0xa4'' = Some pay_carol"
    "Status pay_carol = STORED"
    by (simp_all add: canceled_then_carol_eq pay_carol_def received_def)
  have free2: "\<not> transactionsMutex canceled_then_carol" by (simp add: canceled_then_carol_eq)
  have fresh2: "storedTransactions canceled_then_carol (Hash (Transaction self_send_faster)) = None"
    by (simp add: canceled_then_carol_eq sample_defs)
  have st2: "status_of canceled_then_carol ''0xa1'' = Some CANCELED"
    by (simp add: canceled_then_carol_eq status_of_def)
  have others2: "\<forall>k' r. k' \<noteq> ''0xa4'' \<longrightarrow> storedTransactions canceled_then_carol k' = Some r \<longrightarrow>
      passed_by sample_Sender self_send_faster r \<or>
      (cancel_test alice self_send_faster r \<and> Status r \<noteq> STORED) \<or>
      (\<not> cancel_test alice self_send_faster r \<and> To (Transaction r) \<noteq> None)"
    by (auto simp: canceled_then_carol_eq sample_defs)
  show ?thesis
    using StoreTransaction_cancel [OF free1 order1 old1 fresh1 sender(1,2) nonce(1) shape caps(1)
        others1]
      StoreTransaction_cancel [OF free2 order2 old2 fresh2 sender(1,3) nonce(2) shape caps(2)
        others2]
      order1 old1(1) beside order2 old2(1) st2
    by blast
qed

text \<open>
  Without the condition on the other entries the statement fails. After \<open>pay_bob\<close> and
  \<open>pay_carol\<close>, two stored transactions of one sender and nonce, a cancelling transaction
  cancels the one the scan meets first and returns: the other keeps status STORED, in
  either order.
\<close>

theorem cancel_reaches_one_of_two:
  "storedTransactions stored_two_recipients ''0xa1'' = Some pay_bob \<and>
   storedTransactions stored_two_recipients ''0xa4'' = Some pay_carol \<and>
   Status pay_bob = STORED \<and> Status pay_carol = STORED \<and>
   storedTransactions stored_two_recipients (Hash (Transaction self_send_faster)) = None \<and>
   sample_Sender (ChainId (Transaction self_send_faster)) (Transaction self_send_faster) = Some alice \<and>
   sample_Sender (ChainId (Transaction self_send_faster)) (Transaction pay_bob) = Some alice \<and>
   sample_Sender (ChainId (Transaction self_send_faster)) (Transaction pay_carol) = Some alice \<and>
   Nonce (Transaction self_send_faster) = Nonce (Transaction pay_bob) \<and>
   Nonce (Transaction self_send_faster) = Nonce (Transaction pay_carol) \<and>
   To (Transaction self_send_faster) = Some alice \<and>
   Value (Transaction self_send_faster) = 0 \<and>
   length (Data (Transaction self_send_faster)) = 0 \<and>
   GasFeeCap (Transaction pay_bob) + GasTipCap (Transaction pay_bob) <
     GasFeeCap (Transaction self_send_faster) + GasTipCap (Transaction self_send_faster) \<and>
   GasFeeCap (Transaction pay_carol) + GasTipCap (Transaction pay_carol) <
     GasFeeCap (Transaction self_send_faster) + GasTipCap (Transaction self_send_faster) \<and>
   range_order stored_two_recipients [''0xa1'', ''0xa4''] \<and>
   range_order stored_two_recipients [''0xa4'', ''0xa1''] \<and>
   status_of (fst (StoreTransaction sample_Sender [''0xa1'', ''0xa4''] stored_two_recipients
     self_send_faster)) ''0xa4'' = Some STORED \<and>
   status_of (fst (StoreTransaction sample_Sender [''0xa4'', ''0xa1''] stored_two_recipients
     self_send_faster)) ''0xa1'' = Some STORED"
  by (auto simp: stored_two_recipients_eq range_order_def status_of_def run_defs Let_def sample_defs)

subsection \<open>Nil recipients\<close>

text \<open>
  C9. \<^verbatim>\<open>StoreTransaction\<close> panics on a nil recipient: for a contract creation sent by
  the sender, and at the nonce, of a stored transaction (\<^verbatim>\<open>*tx.To()\<close> in the cancel
  test), and for a transaction with a recipient that meets a stored contract creation of
  its sender and nonce (\<^verbatim>\<open>*oldTx.To()\<close> in the speed-up test).
\<close>

theorem StoreTransaction_nil_recipient_panics:
  "StoreTransaction sample_Sender [''0xa1''] stored1 deploy =
     (stored1, Panics NilPointerDereference) \<and>
   StoreTransaction sample_Sender [''0xa7''] stored_deploy pay_bob =
     (stored_deploy, Panics NilPointerDereference)"
  by (simp add: stored1_eq stored_deploy_eq run_defs Let_def sample_defs)

subsection \<open>The speed-up pattern\<close>

text \<open>
  C5 (amended). Let the mutex be free, the hash of \<open>tx\<close> be no key of the map, and
  \<open>oldTx\<close> be an entry with status STORED whose sender, recovered under the signer of
  the chain id of \<open>tx\<close>, and whose nonce are those of \<open>tx\<close>. Let \<open>tx\<close> have the
  recipient of \<open>oldTx\<close>, not nil, its value and its data, and a sum of caps that, as the
  \<^verbatim>\<open>int64\<close> the code computes, exceeds that of \<open>oldTx\<close>. Let \<open>tx\<close> not be a transfer
  to its own sender with no data and a value that \<^verbatim>\<open>Int64()\<close> reads as 0, and let every
  other entry be passed by or unmatched. Then, whatever order the scan takes,
  \<^verbatim>\<open>StoreTransaction\<close> returns nil, the status of \<open>oldTx\<close> is SPEDUP, \<open>tx\<close> is in the
  map under its hash with status STORED, and nothing else in the client has changed.
\<close>

theorem StoreTransaction_speedup:
  assumes free: "\<not> transactionsMutex ec"
    and order: "range_order ec order"
    and old: "storedTransactions ec k = Some oldTx" "Status oldTx = STORED"
    and fresh: "storedTransactions ec (Hash (Transaction tx)) = None"
    and sender: "Sender (ChainId (Transaction tx)) (Transaction tx) = Some a"
      "Sender (ChainId (Transaction tx)) (Transaction oldTx) = Some a"
    and nonce: "Nonce (Transaction tx) = Nonce (Transaction oldTx)"
    and shape: "To (Transaction tx) = To (Transaction oldTx)" "To (Transaction tx) \<noteq> None"
      "Value (Transaction tx) = Value (Transaction oldTx)"
      "Data (Transaction tx) = Data (Transaction oldTx)"
    and caps: "sint (gasCap oldTx) < sint (gasCap tx)"
    and not_cancel: "\<not> (To (Transaction tx) = Some a \<and> Int64 (Value (Transaction tx)) = 0 \<and>
        length (Data (Transaction tx)) = 0)"
    and others: "\<forall>k' r. k' \<noteq> k \<longrightarrow> storedTransactions ec k' = Some r \<longrightarrow>
        passed_by Sender tx r \<or> unmatched Sender tx r"
  shows "StoreTransaction Sender order ec tx =
      (ec\<lparr>storedTransactions := (storedTransactions ec)
            (k \<mapsto> oldTx\<lparr>Status := SPEDUP\<rparr>, Hash (Transaction tx) \<mapsto> tx\<lparr>Status := STORED\<rparr>)\<rparr>,
       Returns None)"
proof -
  obtain pre post where split: "order = pre @ k # post" "k \<notin> set pre"
    using range_order_split [OF order old(1)] by auto
  have kh: "k \<noteq> Hash (Transaction tx)" using old fresh by auto
  have same: "same_account Sender tx oldTx"
    using sender nonce by (simp add: same_account_def)
  have nc: "\<not> cancel_test a tx oldTx"
    using not_cancel by (auto simp: cancel_test_def)
  have st: "speedup_test tx oldTx"
    using shape caps by (simp add: speedup_test_def)
  have step: "loop_body Sender tx ec False k' r = Continue ec False"
    if "k' \<in> set pre" "storedTransactions ec k' = Some r" for k' r
  proof -
    have k': "k' \<noteq> k" "k' \<noteq> Hash (Transaction tx)" using that split fresh by auto
    then show ?thesis
      using others that loop_body_passed_by [OF k'(2)] loop_body_unmatched [OF k'(2)] by blast
  qed
  have "range_loop Sender tx ec False (pre @ k # post) = range_loop Sender tx ec False (k # post)"
    using range_loop_append_same [of pre ec Sender tx False "k # post"] step by blast
  then have "range_loop Sender tx ec False order =
      Left (ec\<lparr>storedTransactions := (storedTransactions ec)
               (k \<mapsto> oldTx\<lparr>Status := SPEDUP\<rparr>, Hash (Transaction tx) \<mapsto> tx\<lparr>Status := STORED\<rparr>)\<rparr>)
        (Returns None)"
    using split old loop_body_speedup_stored [OF free kh old same sender(1) nc st] by simp
  then show ?thesis by (simp add: StoreTransaction_def)
qed

text \<open>
  The theorem at a client with two stored transactions of the account, to two
  recipients: the scan meets the unmatched one first and speeds up the other.
\<close>

theorem StoreTransaction_speedup_witness:
  "range_order stored_two_recipients [''0xa4'', ''0xa1''] \<and>
   storedTransactions stored_two_recipients ''0xa1'' = Some pay_bob \<and>
   StoreTransaction sample_Sender [''0xa4'', ''0xa1''] stored_two_recipients pay_bob_faster =
     (stored_two_recipients\<lparr>storedTransactions := (storedTransactions stored_two_recipients)
        (''0xa1'' \<mapsto> pay_bob\<lparr>Status := SPEDUP\<rparr>,
         Hash (Transaction pay_bob_faster) \<mapsto> pay_bob_faster\<lparr>Status := STORED\<rparr>)\<rparr>,
      Returns None)"
proof -
  have order: "range_order stored_two_recipients [''0xa4'', ''0xa1'']"
    by (auto simp: range_order_def stored_two_recipients_eq)
  have old: "storedTransactions stored_two_recipients ''0xa1'' = Some pay_bob"
    "Status pay_bob = STORED"
    by (simp_all add: stored_two_recipients_eq pay_bob_def received_def)
  have free: "\<not> transactionsMutex stored_two_recipients"
    by (simp add: stored_two_recipients_eq)
  have fresh: "storedTransactions stored_two_recipients (Hash (Transaction pay_bob_faster)) = None"
    by (simp add: stored_two_recipients_eq sample_defs)
  have sender:
    "sample_Sender (ChainId (Transaction pay_bob_faster)) (Transaction pay_bob_faster) = Some alice"
    "sample_Sender (ChainId (Transaction pay_bob_faster)) (Transaction pay_bob) = Some alice"
    by (simp_all add: sample_defs)
  have shape: "Nonce (Transaction pay_bob_faster) = Nonce (Transaction pay_bob)"
    "To (Transaction pay_bob_faster) = To (Transaction pay_bob)"
    "To (Transaction pay_bob_faster) \<noteq> None"
    "Value (Transaction pay_bob_faster) = Value (Transaction pay_bob)"
    "Data (Transaction pay_bob_faster) = Data (Transaction pay_bob)"
    by (simp_all add: sample_defs)
  have caps: "sint (gasCap pay_bob) < sint (gasCap pay_bob_faster)"
    by (simp add: sample_caps)
  have not_cancel: "\<not> (To (Transaction pay_bob_faster) = Some alice \<and>
      Int64 (Value (Transaction pay_bob_faster)) = 0 \<and> length (Data (Transaction pay_bob_faster)) = 0)"
    by (simp add: sample_defs)
  have others: "\<forall>k' r. k' \<noteq> ''0xa1'' \<longrightarrow> storedTransactions stored_two_recipients k' = Some r \<longrightarrow>
      passed_by sample_Sender pay_bob_faster r \<or> unmatched sample_Sender pay_bob_faster r"
    by (auto simp: stored_two_recipients_eq unmatched_def same_account_def cancel_test_def
        speedup_test_def sample_defs)
  show ?thesis
    using StoreTransaction_speedup [OF free order old fresh sender shape caps not_cancel others]
      order old(1)
    by blast
qed

text \<open>
  The speed-up of a stored transfer of value 0 to its own sender, with no data, meets
  every condition of the speed-up pattern, and the cancel pattern too, which the code
  tests first: the stored transaction ends CANCELED and the new one is dropped.
\<close>

theorem speedup_of_self_send_cancels:
  "storedTransactions stored_self_send ''0xa5'' = Some self_send \<and>
   Status self_send = STORED \<and>
   storedTransactions stored_self_send (Hash (Transaction self_send_faster)) = None \<and>
   sample_Sender (ChainId (Transaction self_send_faster)) (Transaction self_send_faster) = Some alice \<and>
   sample_Sender (ChainId (Transaction self_send_faster)) (Transaction self_send) = Some alice \<and>
   Nonce (Transaction self_send_faster) = Nonce (Transaction self_send) \<and>
   To (Transaction self_send_faster) = To (Transaction self_send) \<and>
   Value (Transaction self_send_faster) = Value (Transaction self_send) \<and>
   Data (Transaction self_send_faster) = Data (Transaction self_send) \<and>
   GasFeeCap (Transaction self_send) + GasTipCap (Transaction self_send) <
     GasFeeCap (Transaction self_send_faster) + GasTipCap (Transaction self_send_faster) \<and>
   range_order stored_self_send [''0xa5''] \<and>
   snd (StoreTransaction sample_Sender [''0xa5''] stored_self_send self_send_faster) = Returns None \<and>
   status_of (fst (StoreTransaction sample_Sender [''0xa5''] stored_self_send self_send_faster))
     ''0xa5'' = Some CANCELED \<and>
   storedTransactions (fst (StoreTransaction sample_Sender [''0xa5''] stored_self_send
     self_send_faster)) (Hash (Transaction self_send_faster)) = None"
  by (auto simp: stored_self_send_eq range_order_def status_of_def run_defs sample_defs)

subsection \<open>A transaction ingested again\<close>

text \<open>
  C6. \<open>pay_bob_faster\<close> was stored by a call that returned nil (it sped up \<open>pay_bob\<close>).
  Ingested again, it gets the error \<^verbatim>\<open>already STORED\<close> and the client is as it was when
  the map produces its own hash before \<open>0xa2\<close>; when the map produces \<open>0xa2\<close> first, the
  call returns nil and \<open>pay_bob_again\<close>, stored under \<open>0xa2\<close>, is sped up. The test for
  the hash is made inside the loop, entry by entry, and not before it.
\<close>

theorem second_ingest_depends_on_order:
  "sped_up_first =
     fst (StoreTransaction sample_Sender [''0xa1'', ''0xa2''] stored_equal_caps pay_bob_faster) \<and>
   snd (StoreTransaction sample_Sender [''0xa1'', ''0xa2''] stored_equal_caps pay_bob_faster) =
     Returns None \<and>
   storedTransactions sped_up_first (Hash (Transaction pay_bob_faster)) = Some pay_bob_faster \<and>
   status_of sped_up_first ''0xa2'' = Some STORED \<and>
   range_order sped_up_first [''0xa3'', ''0xa2'', ''0xa1''] \<and>
   StoreTransaction sample_Sender [''0xa3'', ''0xa2'', ''0xa1''] sped_up_first pay_bob_faster =
     (sped_up_first, Returns (Some ''already STORED'')) \<and>
   range_order sped_up_first [''0xa2'', ''0xa3'', ''0xa1''] \<and>
   snd (StoreTransaction sample_Sender [''0xa2'', ''0xa3'', ''0xa1''] sped_up_first pay_bob_faster) =
     Returns None \<and>
   status_of (fst (StoreTransaction sample_Sender [''0xa2'', ''0xa3'', ''0xa1''] sped_up_first
     pay_bob_faster)) ''0xa2'' = Some SPEDUP"
proof -
  have a: "snd (StoreTransaction sample_Sender [''0xa1'', ''0xa2''] stored_equal_caps pay_bob_faster) =
     Returns None"
    by (simp add: stored_equal_caps_eq run_defs sample_defs)
  have b: "storedTransactions sped_up_first (Hash (Transaction pay_bob_faster)) = Some pay_bob_faster"
    "status_of sped_up_first ''0xa2'' = Some STORED"
    "range_order sped_up_first [''0xa2'', ''0xa3'', ''0xa1'']"
    "range_order sped_up_first [''0xa3'', ''0xa2'', ''0xa1'']"
    by (auto simp: sped_up_first_eq status_of_def range_order_def sample_defs)
  have c: "snd (StoreTransaction sample_Sender [''0xa2'', ''0xa3'', ''0xa1''] sped_up_first pay_bob_faster) =
     Returns None"
    "status_of (fst (StoreTransaction sample_Sender [''0xa2'', ''0xa3'', ''0xa1''] sped_up_first
     pay_bob_faster)) ''0xa2'' = Some SPEDUP"
    by (simp_all add: sped_up_first_eq status_of_def run_defs sample_defs)
  have d: "StoreTransaction sample_Sender [''0xa3'', ''0xa2'', ''0xa1''] sped_up_first pay_bob_faster =
     (sped_up_first, Returns (Some ''already STORED''))"
    by (simp add: sped_up_first_eq run_defs sample_defs)
  show ?thesis
    using a b c d by (simp add: sped_up_first_def)
qed

text \<open>
  Where the second call does return the error: when the hash of \<open>tx\<close> is a key of the
  map and every other entry is passed by or unmatched, \<^verbatim>\<open>StoreTransaction\<close> returns the
  error \<^verbatim>\<open>already\<close> with the status of the entry under that key, whatever order the
  scan takes, and the client is as it was.
\<close>

theorem StoreTransaction_duplicate:
  assumes order: "range_order ec order"
    and existing: "storedTransactions ec (Hash (Transaction tx)) = Some existing"
    and others: "\<forall>k' r. k' \<noteq> Hash (Transaction tx) \<longrightarrow> storedTransactions ec k' = Some r \<longrightarrow>
        passed_by Sender tx r \<or> unmatched Sender tx r"
  shows "StoreTransaction Sender order ec tx =
      (ec, Returns (Some (''already '' @ String (Status existing))))"
proof -
  obtain pre post where split: "order = pre @ Hash (Transaction tx) # post"
      "Hash (Transaction tx) \<notin> set pre"
    using range_order_split [OF order existing] by auto
  have step: "loop_body Sender tx ec False k' r = Continue ec False"
    if "k' \<in> set pre" "storedTransactions ec k' = Some r" for k' r
  proof -
    have k': "k' \<noteq> Hash (Transaction tx)" using that split by auto
    then show ?thesis
      using others that loop_body_passed_by [OF k'] loop_body_unmatched [OF k'] by blast
  qed
  have "range_loop Sender tx ec False (pre @ Hash (Transaction tx) # post) =
      range_loop Sender tx ec False (Hash (Transaction tx) # post)"
    using range_loop_append_same [of pre ec Sender tx False "Hash (Transaction tx) # post"] step
    by blast
  then have "range_loop Sender tx ec False order =
      Left ec (Returns (Some (''already '' @ String (Status existing))))"
    using split existing by (simp add: loop_body_duplicate)
  then show ?thesis by (simp add: StoreTransaction_def)
qed

text \<open>
  The theorem at a client where the scan meets another stored transaction of the account
  before the one ingested again.
\<close>

theorem StoreTransaction_duplicate_witness:
  "range_order stored_two_recipients [''0xa4'', ''0xa1''] \<and>
   storedTransactions stored_two_recipients (Hash (Transaction pay_bob)) = Some pay_bob \<and>
   StoreTransaction sample_Sender [''0xa4'', ''0xa1''] stored_two_recipients pay_bob =
     (stored_two_recipients, Returns (Some ''already STORED''))"
proof -
  have order: "range_order stored_two_recipients [''0xa4'', ''0xa1'']"
    by (auto simp: range_order_def stored_two_recipients_eq)
  have existing: "storedTransactions stored_two_recipients (Hash (Transaction pay_bob)) = Some pay_bob"
    by (simp add: stored_two_recipients_eq sample_defs)
  have others: "\<forall>k' r. k' \<noteq> Hash (Transaction pay_bob) \<longrightarrow>
      storedTransactions stored_two_recipients k' = Some r \<longrightarrow>
      passed_by sample_Sender pay_bob r \<or> unmatched sample_Sender pay_bob r"
    by (auto simp: stored_two_recipients_eq unmatched_def same_account_def cancel_test_def
        speedup_test_def sample_defs)
  have "String (Status pay_bob) = ''STORED''"
    by (simp add: sample_defs)
  then show ?thesis
    using StoreTransaction_duplicate [OF order existing others] order existing by simp
qed

subsection \<open>A sender that is not recovered\<close>

text \<open>
  C2 (amended). When the sender of \<open>tx\<close> is not recovered, \<^verbatim>\<open>StoreTransaction\<close> does not
  fail for it: the scan stops at the first entry it reaches that is not SPEDUP and
  whose own sender is recovered, and what follows the loop stores \<open>tx\<close> with status STORED and returns nil.
  So a \<open>tx\<close> whose hash is no key of the map is stored, in every order of the scan, and
  nothing else changes; when the hash is a key, the call either does the same (writing
  \<open>tx\<close> over the entry) or returns the error \<^verbatim>\<open>already\<close> with the status of that entry,
  the client being as it was.
\<close>

theorem StoreTransaction_unrecovered_sender:
  assumes "Sender (ChainId (Transaction tx)) (Transaction tx) = None"
  shows "(storedTransactions ec (Hash (Transaction tx)) = None \<longrightarrow>
      StoreTransaction Sender order ec tx =
        (ec\<lparr>storedTransactions :=
           (storedTransactions ec)(Hash (Transaction tx) \<mapsto> tx\<lparr>Status := STORED\<rparr>)\<rparr>,
         Returns None)) \<and>
    (StoreTransaction Sender order ec tx =
        (ec\<lparr>storedTransactions :=
           (storedTransactions ec)(Hash (Transaction tx) \<mapsto> tx\<lparr>Status := STORED\<rparr>)\<rparr>,
         Returns None) \<or>
     (\<exists>existing. storedTransactions ec (Hash (Transaction tx)) = Some existing \<and>
        StoreTransaction Sender order ec tx =
          (ec, Returns (Some (''already '' @ String (Status existing))))))"
  using range_loop_unrecovered [where Sender=Sender and tx=tx and ec=ec and c=False and order=order]
    assms
  by (auto simp: StoreTransaction_def)

text \<open>The theorem at a transaction with no recoverable sender and a new hash.\<close>

theorem StoreTransaction_unrecovered_sender_witness:
  "sample_Sender (ChainId (Transaction unsigned_tx)) (Transaction unsigned_tx) = None \<and>
   storedTransactions stored1 (Hash (Transaction unsigned_tx)) = None \<and>
   StoreTransaction sample_Sender [''0xa1''] stored1 unsigned_tx =
     (stored1\<lparr>storedTransactions :=
        (storedTransactions stored1)(Hash (Transaction unsigned_tx) \<mapsto>
          unsigned_tx\<lparr>Status := STORED\<rparr>)\<rparr>,
      Returns None)"
proof -
  have a: "sample_Sender (ChainId (Transaction unsigned_tx)) (Transaction unsigned_tx) = None"
    by (simp add: sample_defs)
  have b: "storedTransactions stored1 (Hash (Transaction unsigned_tx)) = None"
    by (simp add: stored1_eq sample_defs)
  show ?thesis
    using StoreTransaction_unrecovered_sender [where Sender=sample_Sender and tx=unsigned_tx
        and ec=stored1 and order="[''0xa1'']"] a b
    by blast
qed

text \<open>
  The claim fails: the sender of \<open>unsigned_tx\<close> is not recovered, and still the call
  returns nil and stores it, after a stored transaction as well as into the empty map
  (where recovery is not even tried).
\<close>

theorem unrecovered_sender_is_stored:
  "sample_Sender (ChainId (Transaction unsigned_tx)) (Transaction unsigned_tx) = None \<and>
   status_of stored1 ''0xff'' = None \<and>
   range_order stored1 [''0xa1''] \<and>
   snd (StoreTransaction sample_Sender [''0xa1''] stored1 unsigned_tx) = Returns None \<and>
   status_of (fst (StoreTransaction sample_Sender [''0xa1''] stored1 unsigned_tx)) ''0xff'' =
     Some STORED \<and>
   fst (StoreTransaction sample_Sender [''0xa1''] stored1 unsigned_tx) \<noteq> stored1 \<and>
   snd (StoreTransaction sample_Sender [] empty_client unsigned_tx) = Returns None \<and>
   status_of (fst (StoreTransaction sample_Sender [] empty_client unsigned_tx)) ''0xff'' =
     Some STORED"
proof -
  have a: "status_of stored1 ''0xff'' = None"
    "status_of (fst (StoreTransaction sample_Sender [''0xa1''] stored1 unsigned_tx)) ''0xff'' =
      Some STORED"
    "snd (StoreTransaction sample_Sender [''0xa1''] stored1 unsigned_tx) = Returns None"
    "range_order stored1 [''0xa1'']"
    "sample_Sender (ChainId (Transaction unsigned_tx)) (Transaction unsigned_tx) = None"
    "snd (StoreTransaction sample_Sender [] empty_client unsigned_tx) = Returns None"
    "status_of (fst (StoreTransaction sample_Sender [] empty_client unsigned_tx)) ''0xff'' =
      Some STORED"
    by (simp_all add: stored1_eq status_of_def range_order_def run_defs sample_defs)
  have "fst (StoreTransaction sample_Sender [''0xa1''] stored1 unsigned_tx) \<noteq> stored1"
    using a(1,2) by auto
  then show ?thesis using a by simp
qed

section \<open>Properties of the gas monitor\<close>

lemma broadcast_held:
  "transactionsMutex ec \<Longrightarrow> broadcast sendTransaction ec h tx = (ec, False, Blocks)"
  by (simp add: broadcast_def)

lemma broadcast_free:
  assumes "\<not> transactionsMutex ec" "storedTransactions ec h = Some tx" "Status tx = STORED"
  shows "broadcast sendTransaction ec h tx =
     (case sendTransaction h (RawHex tx) of
        (isRPCErr, None) \<Rightarrow>
          (ec\<lparr>storedTransactions := (storedTransactions ec)(h \<mapsto> tx\<lparr>Status := BROADCASTED\<rparr>)\<rparr>,
           True, Returns ())
      | (isRPCErr, Some err) \<Rightarrow>
          if isRPCErr
          then (ec\<lparr>storedTransactions := (storedTransactions ec)(h \<mapsto> tx\<lparr>Status := FAILED\<rparr>)\<rparr>,
                True, Returns ())
          else (ec\<lparr>transactionsMutex := True\<rparr>, True, Returns ()))"
  using assms
  by (simp add: broadcast_def Unlock_def Let_def changeTransactionStatus_free
      split: prod.splits option.splits)

lemma broadcast_frame:
  assumes "broadcast sendTransaction ec h tx = (ec', called, res)" "k \<noteq> h"
  shows "storedTransactions ec' k = storedTransactions ec k"
proof (cases "transactionsMutex ec")
  case True
  then show ?thesis using assms by (simp add: broadcast_held)
next
  case False
  obtain e1 r1 where c1: "changeTransactionStatus (Unlock (ec\<lparr>transactionsMutex := True\<rparr>)) h FAILED = (e1, r1)"
    by (cases "changeTransactionStatus (Unlock (ec\<lparr>transactionsMutex := True\<rparr>)) h FAILED")
  obtain e2 r2 where c2: "changeTransactionStatus (Unlock (ec\<lparr>transactionsMutex := True\<rparr>)) h BROADCASTED = (e2, r2)"
    by (cases "changeTransactionStatus (Unlock (ec\<lparr>transactionsMutex := True\<rparr>)) h BROADCASTED")
  show ?thesis
    using assms False c1 c2 changeTransactionStatus_result [OF c1] changeTransactionStatus_result [OF c2]
    by (auto simp: broadcast_def Let_def Unlock_def split: prod.splits option.splits if_splits outcome.splits)
qed

lemma monitor_loop_skip:
  "\<not> eligible g ec h \<Longrightarrow>
   monitor_loop sendTransaction g ec (h # order) = monitor_loop sendTransaction g ec order"
  by (auto simp: eligible_def split: option.splits)

lemma monitor_loop_eligible:
  assumes "storedTransactions ec h = Some tx" "Status tx = STORED" "sint g \<le> sint (gasCap tx)"
  shows "monitor_loop sendTransaction g ec (h # order) =
     (case broadcast sendTransaction ec h tx of
        (ec', called, Returns u) \<Rightarrow>
          (case monitor_loop sendTransaction g ec' order of
             (ec'', sent, r) \<Rightarrow> (ec'', (if called then [h] else []) @ sent, r))
      | (ec', called, Panics p) \<Rightarrow> (ec', (if called then [h] else []), Panics p)
      | (ec', called, Blocks) \<Rightarrow> (ec', (if called then [h] else []), Blocks))"
  using assms by simp

lemma monitor_loop_frame:
  "monitor_loop sendTransaction g ec order = (ec', sent, res) \<Longrightarrow> k \<notin> set order \<Longrightarrow>
   storedTransactions ec' k = storedTransactions ec k"
proof (induction order arbitrary: ec ec' sent res)
  case Nil
  then show ?case by simp
next
  case (Cons h order)
  show ?case
  proof (cases "eligible g ec h")
    case False
    then have "monitor_loop sendTransaction g ec order = (ec', sent, res)"
      using Cons.prems(1) monitor_loop_skip [of g ec h sendTransaction order] by metis
    from Cons.IH [OF this] Cons.prems(2) show ?thesis by simp
  next
    case True
    then obtain tx where tx: "storedTransactions ec h = Some tx" "Status tx = STORED"
        "sint g \<le> sint (gasCap tx)"
      by (auto simp: eligible_def split: option.splits)
    obtain ec1 called r1 where b: "broadcast sendTransaction ec h tx = (ec1, called, r1)"
      by (cases "broadcast sendTransaction ec h tx") auto
    have f: "storedTransactions ec1 k = storedTransactions ec k"
      using broadcast_frame [OF b] Cons.prems(2) by auto
    note step = monitor_loop_eligible [OF tx, of sendTransaction order]
    show ?thesis
    proof (cases r1)
      case (Returns u)
      obtain ec2 sent2 r2 where m: "monitor_loop sendTransaction g ec1 order = (ec2, sent2, r2)"
        by (cases "monitor_loop sendTransaction g ec1 order") auto
      then have "ec' = ec2" using Cons.prems(1) step b Returns by simp
      then show ?thesis using Cons.IH [OF m] Cons.prems(2) f by simp
    next
      case (Panics p)
      then show ?thesis using Cons.prems(1) step b f by simp
    next
      case Blocks
      then show ?thesis using Cons.prems(1) step b f by simp
    qed
  qed
qed

lemma monitor_loop_sent_subset:
  "monitor_loop sendTransaction g ec order = (ec', sent, res) \<Longrightarrow> set sent \<subseteq> set order"
proof (induction order arbitrary: ec ec' sent res)
  case Nil
  then show ?case by simp
next
  case (Cons h order)
  show ?case
  proof (cases "eligible g ec h")
    case False
    then have "monitor_loop sendTransaction g ec order = (ec', sent, res)"
      using Cons.prems(1) monitor_loop_skip [of g ec h sendTransaction order] by metis
    from Cons.IH [OF this] show ?thesis by auto
  next
    case True
    then obtain tx where tx: "storedTransactions ec h = Some tx" "Status tx = STORED"
        "sint g \<le> sint (gasCap tx)"
      by (auto simp: eligible_def split: option.splits)
    obtain ec1 called r1 where b: "broadcast sendTransaction ec h tx = (ec1, called, r1)"
      by (cases "broadcast sendTransaction ec h tx") auto
    note step = monitor_loop_eligible [OF tx, of sendTransaction order]
    show ?thesis
    proof (cases r1)
      case (Returns u)
      obtain ec2 sent2 r2 where m: "monitor_loop sendTransaction g ec1 order = (ec2, sent2, r2)"
        by (cases "monitor_loop sendTransaction g ec1 order") auto
      then have "set sent \<subseteq> insert h (set sent2)"
        using Cons.prems(1) step b Returns by auto
      then show ?thesis using Cons.IH [OF m] by auto
    next
      case (Panics p)
      then show ?thesis using Cons.prems(1) step b by auto
    next
      case Blocks
      then show ?thesis using Cons.prems(1) step b by auto
    qed
  qed
qed

lemma status_after_send_cong:
  "storedTransactions ec1 h = storedTransactions ec h \<Longrightarrow> status_of ec2 h = status_of ec' h \<Longrightarrow>
   status_after_send sendTransaction ec1 ec2 h = status_after_send sendTransaction ec ec' h"
  by (auto simp: status_after_send_def split: option.splits prod.splits)

lemma broadcast_called:
  assumes "broadcast sendTransaction ec h tx = (ec1, True, res)"
    "storedTransactions ec h = Some tx" "Status tx = STORED"
  shows "status_after_send sendTransaction ec ec1 h"
proof -
  have "\<not> transactionsMutex ec" using assms(1) by (auto simp: broadcast_def)
  from broadcast_free [OF this assms(2,3), of sendTransaction] assms show ?thesis
    by (auto simp: status_after_send_def status_of_def split: prod.splits option.splits if_splits)
qed

lemma monitor_loop_status_after_send:
  "monitor_loop sendTransaction g ec order = (ec', sent, res) \<Longrightarrow> distinct order \<Longrightarrow>
   h \<in> set sent \<Longrightarrow> status_after_send sendTransaction ec ec' h"
proof (induction order arbitrary: ec ec' sent res)
  case Nil
  then show ?case by simp
next
  case (Cons k order)
  show ?case
  proof (cases "eligible g ec k")
    case False
    then have "monitor_loop sendTransaction g ec order = (ec', sent, res)"
      using Cons.prems(1) monitor_loop_skip [of g ec k sendTransaction order] by metis
    from Cons.IH [OF this] Cons.prems show ?thesis by simp
  next
    case True
    then obtain tx where tx: "storedTransactions ec k = Some tx" "Status tx = STORED"
        "sint g \<le> sint (gasCap tx)"
      by (auto simp: eligible_def split: option.splits)
    obtain ec1 called r1 where b: "broadcast sendTransaction ec k tx = (ec1, called, r1)"
      by (cases "broadcast sendTransaction ec k tx") auto
    note step = monitor_loop_eligible [OF tx, of sendTransaction order]
    obtain ec2 sent2 r2 where m: "monitor_loop sendTransaction g ec1 order = (ec2, sent2, r2)"
      by (cases "monitor_loop sendTransaction g ec1 order") auto
    have krest: "k \<notin> set order" "distinct order" using Cons.prems(2) by auto
    show ?thesis
    proof (cases "h = k")
      case True
      then have called: "called" using Cons.prems(1,3) step b m
        monitor_loop_sent_subset [OF m] krest
        by (cases r1) (auto split: if_splits)
      have at_k: "status_after_send sendTransaction ec ec1 k"
        using broadcast_called [of sendTransaction ec k tx ec1 r1] b called tx by simp
      have "storedTransactions ec' k = storedTransactions ec1 k"
      proof (cases r1)
        case (Returns u)
        then have "ec' = ec2" using Cons.prems(1) step b m by simp
        then show ?thesis using monitor_loop_frame [OF m krest(1)] by simp
      next
        case (Panics p)
        then show ?thesis using Cons.prems(1) step b by simp
      next
        case Blocks
        then show ?thesis using Cons.prems(1) step b by simp
      qed
      then have "status_of ec' k = status_of ec1 k" by (simp add: status_of_def)
      then show ?thesis using at_k True
        status_after_send_cong [of ec k ec ec' ec1 sendTransaction] by simp
    next
      case False
      then have r1: "\<exists>u. r1 = Returns u" "sent = (if called then [k] else []) @ sent2" "ec' = ec2"
        using Cons.prems(1,3) step b m by (cases r1; auto split: if_splits)+
      then have hs: "h \<in> set sent2" using Cons.prems(3) False by (auto split: if_splits)
      have ih: "status_after_send sendTransaction ec1 ec2 h"
        using Cons.IH [OF m krest(2) hs] .
      have "storedTransactions ec1 h = storedTransactions ec h"
        using broadcast_frame [OF b False] .
      then show ?thesis using ih r1(3)
        status_after_send_cong [of ec1 h ec ec2 ec2 sendTransaction] by simp
    qed
  qed
qed

lemma eligible_frame:
  "storedTransactions ec1 h = storedTransactions ec h \<Longrightarrow> eligible g ec1 h = eligible g ec h"
  by (simp add: eligible_def)

lemma monitor_loop_sent_iff:
  "monitor_loop sendTransaction g ec order = (ec', sent, Returns ()) \<Longrightarrow> distinct order \<Longrightarrow>
   h \<in> set order \<Longrightarrow> h \<in> set sent \<longleftrightarrow> eligible g ec h"
proof (induction order arbitrary: ec ec' sent)
  case Nil
  then show ?case by simp
next
  case (Cons k order)
  have krest: "k \<notin> set order" "distinct order" using Cons.prems(2) by auto
  show ?case
  proof (cases "eligible g ec k")
    case False
    then have m: "monitor_loop sendTransaction g ec order = (ec', sent, Returns ())"
      using Cons.prems(1) monitor_loop_skip [of g ec k sendTransaction order] by metis
    show ?thesis
    proof (cases "h = k")
      case True
      then show ?thesis using False monitor_loop_sent_subset [OF m] krest by auto
    next
      case neq: False
      then show ?thesis using Cons.IH [OF m krest(2)] Cons.prems(3) by simp
    qed
  next
    case True
    then obtain tx where tx: "storedTransactions ec k = Some tx" "Status tx = STORED"
        "sint g \<le> sint (gasCap tx)"
      by (auto simp: eligible_def split: option.splits)
    obtain ec1 called r1 where b: "broadcast sendTransaction ec k tx = (ec1, called, r1)"
      by (cases "broadcast sendTransaction ec k tx") auto
    note step = monitor_loop_eligible [OF tx, of sendTransaction order]
    obtain ec2 sent2 r2 where m: "monitor_loop sendTransaction g ec1 order = (ec2, sent2, r2)"
      by (cases "monitor_loop sendTransaction g ec1 order") auto
    have r: "r1 = Returns ()" "r2 = Returns ()" "sent = (if called then [k] else []) @ sent2"
      using Cons.prems(1) step b m by (cases r1; auto)+
    have "\<not> transactionsMutex ec" using b r(1) by (auto simp: broadcast_def split: if_splits)
    then have called: "called"
      using broadcast_free [OF _ tx(1,2), of sendTransaction] b
      by (auto split: prod.splits option.splits if_splits)
    show ?thesis
    proof (cases "h = k")
      case True
      then show ?thesis using called r(3) \<open>eligible g ec k\<close> by simp
    next
      case neq: False
      then have "h \<in> set order" using Cons.prems(3) by simp
      then have "h \<in> set sent2 \<longleftrightarrow> eligible g ec1 h"
        using Cons.IH [of ec1 ec2 sent2] m r(2) krest(2) by simp
      moreover have "eligible g ec1 h = eligible g ec h"
        using eligible_frame [OF broadcast_frame [OF b neq]] .
      ultimately show ?thesis using r(3) neq by simp
    qed
  qed
qed

text \<open>
  A tick whose loop runs to its end calls \<^verbatim>\<open>sendTransaction\<close> for exactly the entries
  with status STORED and an \<^verbatim>\<open>int64\<close> sum of caps of at least the gas price.
\<close>

lemma MonitorGas_tick_sent_iff:
  assumes "range_order ec order"
    and "MonitorGas_tick sendTransaction (Some g) order ec = (ec', sent, Returns ())"
  shows "h \<in> set sent \<longleftrightarrow> eligible g ec h"
proof (cases "h \<in> set order")
  case True
  then show ?thesis
    using assms monitor_loop_sent_iff [of sendTransaction g ec order ec' sent h]
    by (simp add: MonitorGas_tick_def range_order_def)
next
  case False
  then have "storedTransactions ec h = None" using assms(1) by (auto simp: range_order_def)
  then have "\<not> eligible g ec h" by (simp add: eligible_def)
  moreover have "h \<notin> set sent"
    using False assms(2) monitor_loop_sent_subset [of sendTransaction g ec order ec' sent "Returns ()"]
    by (auto simp: MonitorGas_tick_def)
  ultimately show ?thesis by simp
qed

lemmas monitor_defs = MonitorGas_tick_def broadcast_def Unlock_def changeTransactionStatus_def
  gasCap_def Int64_def Let_def timeout_then_ok_def all_ok_def nonce_too_low_def

subsection \<open>The status after a broadcast\<close>

text \<open>
  C8. In a tick with a gas price, for every key \<^verbatim>\<open>sendTransaction\<close> was called for, the
  entry had status STORED, and after the tick its status is BROADCASTED when the call
  returned no error, FAILED when it returned an error flagged as an RPC error, and
  STORED when it returned an error not so flagged.
\<close>

theorem MonitorGas_tick_status_after_send:
  assumes "range_order ec order"
    and "MonitorGas_tick sendTransaction (Some g) order ec = (ec', sent, res)"
    and "h \<in> set sent"
  shows "\<exists>tx. storedTransactions ec h = Some tx \<and> Status tx = STORED \<and>
     (case sendTransaction h (RawHex tx) of
        (isRPCErr, None) \<Rightarrow> status_of ec' h = Some BROADCASTED
      | (isRPCErr, Some err) \<Rightarrow>
          if isRPCErr then status_of ec' h = Some FAILED else status_of ec' h = Some STORED)"
proof -
  have "status_after_send sendTransaction ec ec' h"
    using assms monitor_loop_status_after_send [of sendTransaction g ec order ec' sent res h]
    by (simp add: MonitorGas_tick_def range_order_def)
  then show ?thesis by (auto simp: status_after_send_def split: option.splits)
qed

text \<open>
  The theorem at a tick that broadcasts one transaction and gets a timeout for the next,
  and at a tick where the node answers \<^verbatim>\<open>nonce too low\<close>.
\<close>

theorem MonitorGas_tick_status_after_send_witness:
  "range_order stored_two_recipients [''0xa4'', ''0xa1''] \<and>
   fst (snd (MonitorGas_tick timeout_then_ok (Some 5) [''0xa4'', ''0xa1''] stored_two_recipients)) =
     [''0xa4'', ''0xa1''] \<and>
   timeout_then_ok ''0xa4'' (RawHex pay_carol) = (False, None) \<and>
   status_of (fst (MonitorGas_tick timeout_then_ok (Some 5) [''0xa4'', ''0xa1''] stored_two_recipients))
     ''0xa4'' = Some BROADCASTED \<and>
   timeout_then_ok ''0xa1'' (RawHex pay_bob) = (False, Some ''context deadline exceeded'') \<and>
   status_of (fst (MonitorGas_tick timeout_then_ok (Some 5) [''0xa4'', ''0xa1''] stored_two_recipients))
     ''0xa1'' = Some STORED \<and>
   range_order stored1 [''0xa1''] \<and>
   fst (snd (MonitorGas_tick nonce_too_low (Some 5) [''0xa1''] stored1)) = [''0xa1''] \<and>
   nonce_too_low ''0xa1'' (RawHex pay_bob) = (True, Some ''nonce too low'') \<and>
   status_of (fst (MonitorGas_tick nonce_too_low (Some 5) [''0xa1''] stored1)) ''0xa1'' = Some FAILED"
proof -
  let ?t = "MonitorGas_tick timeout_then_ok (Some 5) [''0xa4'', ''0xa1''] stored_two_recipients"
  let ?n = "MonitorGas_tick nonce_too_low (Some 5) [''0xa1''] stored1"
  have o2: "range_order stored_two_recipients [''0xa4'', ''0xa1'']"
    by (auto simp: range_order_def stored_two_recipients_eq)
  have o1: "range_order stored1 [''0xa1'']"
    by (auto simp: range_order_def stored1_eq)
  have sent2: "fst (snd ?t) = [''0xa4'', ''0xa1'']"
    by (simp add: stored_two_recipients_eq monitor_defs sample_defs)
  have sent1: "fst (snd ?n) = [''0xa1'']"
    by (simp add: stored1_eq monitor_defs sample_defs)
  have t: "?t = (fst ?t, fst (snd ?t), snd (snd ?t))" by simp
  have n: "?n = (fst ?n, fst (snd ?n), snd (snd ?n))" by simp
  have look: "storedTransactions stored_two_recipients ''0xa4'' = Some pay_carol"
    "storedTransactions stored_two_recipients ''0xa1'' = Some pay_bob"
    "storedTransactions stored1 ''0xa1'' = Some pay_bob"
    by (simp_all add: stored_two_recipients_eq stored1_eq)
  have answers: "timeout_then_ok ''0xa4'' (RawHex pay_carol) = (False, None)"
    "timeout_then_ok ''0xa1'' (RawHex pay_bob) = (False, Some ''context deadline exceeded'')"
    "nonce_too_low ''0xa1'' (RawHex pay_bob) = (True, Some ''nonce too low'')"
    by (simp_all add: timeout_then_ok_def nonce_too_low_def)
  have a4: "status_of (fst ?t) ''0xa4'' = Some BROADCASTED"
    using MonitorGas_tick_status_after_send [OF o2 t, of "''0xa4''"] sent2 look answers by simp
  have a1: "status_of (fst ?t) ''0xa1'' = Some STORED"
    using MonitorGas_tick_status_after_send [OF o2 t, of "''0xa1''"] sent2 look answers by simp
  have f1: "status_of (fst ?n) ''0xa1'' = Some FAILED"
    using MonitorGas_tick_status_after_send [OF o1 n, of "''0xa1''"] sent1 look answers by simp
  show ?thesis using o1 o2 sent1 sent2 answers a4 a1 f1 by simp
qed

subsection \<open>Which entries a tick sends\<close>

text \<open>
  C7. After an error of \<^verbatim>\<open>sendTransaction\<close> that is not an RPC error the loop goes on
  with the mutex held, and \<^verbatim>\<open>Lock()\<close> for the next entry to send never returns: the
  second entry, with status STORED and caps above the gas price, is not sent.
\<close>

theorem MonitorGas_tick_blocks_after_transport_error:
  "range_order stored_two_recipients [''0xa1'', ''0xa4''] \<and>
   MonitorGas_tick timeout_then_ok (Some 5) [''0xa1'', ''0xa4''] stored_two_recipients =
     (stored_two_recipients\<lparr>transactionsMutex := True\<rparr>, [''0xa1''], Blocks) \<and>
   storedTransactions stored_two_recipients ''0xa4'' = Some pay_carol \<and>
   Status pay_carol = STORED \<and>
   sint (5 :: 64 word) \<le> sint (gasCap pay_carol) \<and>
   GasFeeCap (Transaction pay_carol) + GasTipCap (Transaction pay_carol) \<ge> 5"
  by (auto simp: range_order_def stored_two_recipients_eq monitor_defs sample_defs)

text \<open>
  The \<^verbatim>\<open>int64\<close> sum wraps: with both caps at \<open>2 ^ 62\<close> it is negative, and the entry is
  not sent at gas price 1.
\<close>

lemma MonitorGas_tick_caps_overflow:
  "MonitorGas_tick all_ok (Some 1) [''0xa8''] stored_huge = (stored_huge, [], Returns ()) \<and>
   storedTransactions stored_huge ''0xa8'' = Some huge_caps \<and> Status huge_caps = STORED \<and>
   GasFeeCap (Transaction huge_caps) + GasTipCap (Transaction huge_caps) = 2 ^ 63 \<and>
   sint (gasCap huge_caps) = - (2 ^ 63)"
  by (simp add: stored_huge_eq monitor_defs sample_defs)

subsection \<open>A broadcast transaction ingested again\<close>

text \<open>
  The same second call after the monitor has broadcast \<open>pay_bob_faster\<close>: the entry
  under its hash is written over and has status STORED again.
\<close>

lemma broadcast_faster_eq:
  "broadcast_faster =
     \<lparr>storedTransactions = [''0xa2'' \<mapsto> pay_bob_again, ''0xa1'' \<mapsto> pay_bob\<lparr>Status := SPEDUP\<rparr>,
        ''0xa3'' \<mapsto> pay_bob_faster\<lparr>Status := BROADCASTED\<rparr>],
      transactionsMutex = False\<rparr>"
  by (simp add: broadcast_faster_def sped_up_first_eq monitor_defs sample_defs)

lemma second_ingest_resets_broadcast:
  "MonitorGas_tick all_ok (Some 15) [''0xa2'', ''0xa3'', ''0xa1''] sped_up_first =
     (broadcast_faster, [''0xa3''], Returns ()) \<and>
   status_of broadcast_faster ''0xa3'' = Some BROADCASTED \<and>
   range_order broadcast_faster [''0xa2'', ''0xa3'', ''0xa1''] \<and>
   snd (StoreTransaction sample_Sender [''0xa2'', ''0xa3'', ''0xa1''] broadcast_faster pay_bob_faster) =
     Returns None \<and>
   status_of (fst (StoreTransaction sample_Sender [''0xa2'', ''0xa3'', ''0xa1''] broadcast_faster
     pay_bob_faster)) ''0xa3'' = Some STORED"
proof -
  have a: "MonitorGas_tick all_ok (Some 15) [''0xa2'', ''0xa3'', ''0xa1''] sped_up_first =
     (broadcast_faster, [''0xa3''], Returns ())"
    by (simp add: broadcast_faster_eq sped_up_first_eq monitor_defs sample_defs)
  have b: "status_of broadcast_faster ''0xa3'' = Some BROADCASTED"
    "range_order broadcast_faster [''0xa2'', ''0xa3'', ''0xa1'']"
    by (auto simp: broadcast_faster_eq status_of_def range_order_def)
  have c: "snd (StoreTransaction sample_Sender [''0xa2'', ''0xa3'', ''0xa1''] broadcast_faster pay_bob_faster) =
     Returns None"
    "status_of (fst (StoreTransaction sample_Sender [''0xa2'', ''0xa3'', ''0xa1''] broadcast_faster
     pay_bob_faster)) ''0xa3'' = Some STORED"
    by (simp_all add: broadcast_faster_eq status_of_def run_defs sample_defs)
  show ?thesis using a b c by simp
qed

subsection \<open>The mutex after a tick\<close>

lemma changeTransactionStatus_held:
  "transactionsMutex ec \<Longrightarrow> changeTransactionStatus ec h s = (ec, Blocks)"
  by (simp add: changeTransactionStatus_def)

lemma leaked_eq:
  "leaked = \<lparr>storedTransactions = [''0xa1'' \<mapsto> pay_bob], transactionsMutex = True\<rparr>"
  by (simp add: leaked_def stored1_eq monitor_defs sample_defs)

text \<open>
  C3. A tick whose call of \<^verbatim>\<open>sendTransaction\<close> ends in an error that is not an RPC
  error returns with the mutex held. In the client it leaves,
  \<^verbatim>\<open>changeTransactionStatus\<close> neither fails nor succeeds: for a hash that is no key, for a
  pair of statuses outside the table and for a pair inside it, \<^verbatim>\<open>Lock()\<close> never returns,
  and \<^verbatim>\<open>CancelTransaction\<close> with it.
\<close>

theorem changeTransactionStatus_blocks_after_leak:
  "range_order stored1 [''0xa1''] \<and>
   MonitorGas_tick timeout_then_ok (Some 5) [''0xa1''] stored1 = (leaked, [''0xa1''], Returns ()) \<and>
   storedTransactions leaked ''0xa9'' = None \<and>
   changeTransactionStatus leaked ''0xa9'' CANCELED = (leaked, Blocks) \<and>
   status_of leaked ''0xa1'' = Some STORED \<and>
   changeTransactionStatus leaked ''0xa1'' STORED = (leaked, Blocks) \<and>
   changeTransactionStatus leaked ''0xa1'' CANCELED = (leaked, Blocks) \<and>
   CancelTransaction leaked ''0xa1'' = (leaked, Blocks)"
proof -
  have tick: "MonitorGas_tick timeout_then_ok (Some 5) [''0xa1''] stored1 =
      (leaked, [''0xa1''], Returns ())"
    by (simp add: leaked_eq stored1_eq monitor_defs sample_defs)
  have held: "transactionsMutex leaked" by (simp add: leaked_eq)
  have rest: "range_order stored1 [''0xa1'']" "storedTransactions leaked ''0xa9'' = None"
    "status_of leaked ''0xa1'' = Some STORED"
    by (auto simp: range_order_def stored1_eq leaked_eq status_of_def sample_defs)
  show ?thesis
    using tick held rest by (simp add: changeTransactionStatus_def CancelTransaction_def)
qed

end
